theory Spec2Isabelle
  imports Complex_Main
begin

section \<open>Partition pooling: the normalizer of layer.py\<close>

text \<open>
  The development follows the two source files. \<^verbatim>\<open>layer.py\<close> turns a ragged list of
  index groups into a rectangular index table and a table of correction weights
  (\<^verbatim>\<open>PartitionPooling.adjustPartitionLength\<close>); \<^verbatim>\<open>algorithm.py\<close> gathers the node
  features named by the table and reduces them (max, weighted sum, weighted average).

  Numbers: node indices are Python ints, modelled as \<open>int\<close>. The index table of the
  source is a numpy array of int64 cells and the index tensor of TensorFlow is an int32 or
  int64 tensor: both hold an index \<open>j\<close> with \<open>-2^63 \<le> j < 2^63\<close> unchanged, and that
  is the range the model describes. Beyond it numpy wraps the index or raises
  OverflowError and TensorFlow builds a tensor of another type; the model does not follow
  them there, and the statements below about the values of the stored indices and about
  the exception that is raised carry that range as a hypothesis. (An index that names a node of a tensor is in the
  range, a tensor having fewer than \<open>2^63\<close> nodes.) Weights and features are floating
  point in the source; the properties proved here are the exact-arithmetic ones, so they
  are modelled as \<open>real\<close>. The exceptions of Python, numpy and TensorFlow are values of
  the type \<open>error\<close>.
\<close>

datatype error = ValueError | TypeError | InvalidArgumentError

subsection \<open>The Python and numpy primitives used by adjustPartitionLength\<close>

text \<open>\<^verbatim>\<open>max(l)\<close> on a Python list: raises ValueError on the empty list.\<close>

definition py_max :: "nat list \<Rightarrow> error + nat" where
  "py_max l = (case l of [] \<Rightarrow> Inl ValueError | x # xs \<Rightarrow> Inr (fold max xs x))"

text \<open>
  \<^verbatim>\<open>np.pad(e, (0, lenDiff), 'edge')\<close>: appends \<open>lenDiff\<close> copies of the last element.
  An empty array cannot be extended in mode 'edge' (numpy raises ValueError); padding
  it by nothing returns it unchanged.
\<close>

definition np_pad_edge :: "int list \<Rightarrow> nat \<Rightarrow> error + int list" where
  "np_pad_edge e lenDiff =
     (if e = [] then (if lenDiff = 0 then Inr [] else Inl ValueError)
      else Inr (e @ replicate lenDiff (last e)))"

text \<open>
  \<^verbatim>\<open>row[-k:] = v\<close> for \<open>k \<ge> 1\<close>: the slice starts at \<open>len(row) - k\<close>, clipped to 0, and
  every cell from there to the end receives \<open>v\<close>.
\<close>

definition assign_tail :: "real list \<Rightarrow> nat \<Rightarrow> real \<Rightarrow> real list" where
  "assign_tail row k v =
     (let start = length row - k in take start row @ replicate (length row - start) v)"

subsection \<open>adjustPartitionLength\<close>

text \<open>
  The loop \<^verbatim>\<open>for i, e in enumerate(part)\<close>: the state is the pair of tables
  \<open>(adjustedPartitions, countWeights)\<close>, row \<open>i\<close> of each is overwritten in turn. The first
  failing \<^verbatim>\<open>np.pad\<close> aborts the loop. \<open>l[i]\<close> is \<open>len(e)\<close>.
\<close>

fun fill_rows ::
  "nat \<Rightarrow> nat \<Rightarrow> int list list \<Rightarrow> int list list \<times> real list list
     \<Rightarrow> error + (int list list \<times> real list list)" where
  "fill_rows maxLen i [] tables = Inr tables"
| "fill_rows maxLen i (e # es) (adjustedPartitions, countWeights) =
     (let lenDiff = maxLen - length e in
      case np_pad_edge e lenDiff of
        Inl err \<Rightarrow> Inl err
      | Inr padded \<Rightarrow>
          fill_rows maxLen (Suc i) es
            (adjustedPartitions[i := padded],
             countWeights[i := assign_tail (countWeights ! i) (lenDiff + 1)
                                  (1 / real (lenDiff + 1))]))"

definition adjustPartitionLength ::
  "int list list \<Rightarrow> error + (int list list \<times> real list list)" where
  "adjustPartitionLength part =
     (let l = map length part;
          partLen = length part
      in case py_max l of
           Inl err \<Rightarrow> Inl err
         | Inr maxLen \<Rightarrow>
             fill_rows maxLen 0 part
               (replicate partLen (replicate maxLen 0),
                replicate partLen (replicate maxLen 1)))"

section \<open>Tensors\<close>

text \<open>
  A TensorFlow tensor is a rectangular array with a static shape. It is modelled as its
  dimensions together with the function from in-range positions to elements; only
  positions inside the shape are ever read. \<open>tensor3\<close> is the feature tensor of shape
  \<open>(batch, nodes, features)\<close> and also the pooled result of shape
  \<open>(batch, P, features)\<close>, so its middle dimension is called \<open>axis1\<close>.
\<close>

record tensor1 =
  len1 :: nat
  at1 :: "nat \<Rightarrow> real"

record tensor2 =
  rows2 :: nat
  cols2 :: nat
  at2 :: "nat \<Rightarrow> nat \<Rightarrow> real"

record tensor3 =
  batch :: nat
  axis1 :: nat
  features :: nat
  at3 :: "nat \<Rightarrow> nat \<Rightarrow> nat \<Rightarrow> real"

record tensor4 =
  batch4 :: nat
  parts4 :: nat
  slots4 :: nat
  features4 :: nat
  at4 :: "nat \<Rightarrow> nat \<Rightarrow> nat \<Rightarrow> nat \<Rightarrow> real"

text \<open>
  \<^verbatim>\<open>tf.constant\<close> on the Python lists the layer holds. \<open>countWeights\<close> always has
  \<open>partLen \<ge> 1\<close> rows of the same length \<open>maxLen\<close>, and its row sums form a flat list.
\<close>

definition tf_constant2 :: "real list list \<Rightarrow> tensor2" where
  "tf_constant2 xss =
     \<lparr>rows2 = length xss,
      cols2 = (case xss of [] \<Rightarrow> 0 | r # _ \<Rightarrow> length r),
      at2 = (\<lambda>i k. xss ! i ! k)\<rparr>"

definition tf_constant1 :: "real list \<Rightarrow> tensor1" where
  "tf_constant1 xs = \<lparr>len1 = length xs, at1 = (\<lambda>i. xs ! i)\<rparr>"

text \<open>\<^verbatim>\<open>np.sum(countWeights, axis=-1)\<close>: the sum of each row.\<close>

definition np_sum_last :: "real list list \<Rightarrow> real list" where
  "np_sum_last xss = map sum_list xss"

section \<open>The TensorFlow primitives used by algorithm.py\<close>

definition rectangular :: "'a list list \<Rightarrow> bool" where
  "rectangular xss = list_all (\<lambda>r. length r = length (hd xss)) xss"

text \<open>
  \<^verbatim>\<open>tf.gather(tensor, tf.constant(partitions), batch_dims=0, axis=1)\<close>, the expression all
  three pooling functions start with.
  \<^item> \<^verbatim>\<open>tf.constant\<close> refuses a list whose rows differ in length (ValueError).
  \<^item> A list without any entry converts to a float32 tensor, which \<^verbatim>\<open>tf.gather\<close> refuses
    as indices (TypeError); so a gathered tensor always has \<open>P \<ge> 1\<close> and \<open>maxLen \<ge> 1\<close>.
  \<^item> The CPU kernel checks each index against \<open>[0, nodes)\<close> as it copies the slice the
    index names, and reports InvalidArgumentError; negative indices are not supported.
    A tensor without elements (batch or feature size 0) has no slice to copy, and is
    gathered without a check. (The GPU kernel writes zeros instead of failing; the model
    is that of the CPU kernel.)
  \<^item> Otherwise element \<open>(b, i, k, f)\<close> of the result is element \<open>(b, partitions[i][k], f)\<close>
    of the tensor: the result has shape \<open>(batch, P, maxLen, features)\<close>.

  The exceptions are those met by indices \<open>j\<close> with \<open>-2^63 \<le> j < 2^63\<close>, which
  \<^verbatim>\<open>tf.constant\<close> turns into an int32 or int64 tensor.
\<close>

definition tf_gather :: "tensor3 \<Rightarrow> int list list \<Rightarrow> error + tensor4" where
  "tf_gather tensor partitions =
     (if \<not> rectangular partitions then Inl ValueError
      else if concat partitions = [] then Inl TypeError
      else if 0 < batch tensor \<and> 0 < features tensor
              \<and> list_ex (\<lambda>j. j < 0 \<or> int (axis1 tensor) \<le> j) (concat partitions)
           then Inl InvalidArgumentError
      else Inr \<lparr>batch4 = batch tensor,
                parts4 = length partitions,
                slots4 = length (hd partitions),
                features4 = features tensor,
                at4 = (\<lambda>b i k f. at3 tensor b (nat (partitions ! i ! k)) f)\<rparr>)"

text \<open>
  Broadcasting of one dimension against another: equal sizes stay, a size of 1 stretches
  to the other size, anything else is a shape error. \<open>stretch d i\<close> is the position read in
  a dimension of size \<open>d\<close> for position \<open>i\<close> of the broadcast result.
\<close>

definition broadcast_dim :: "nat \<Rightarrow> nat \<Rightarrow> error + nat" where
  "broadcast_dim a b =
     (if a = b then Inr a else if a = 1 then Inr b else if b = 1 then Inr a
      else Inl ValueError)"

definition stretch :: "nat \<Rightarrow> nat \<Rightarrow> nat" where
  "stretch d i = (if d = 1 then 0 else i)"

text \<open>
  \<^verbatim>\<open>tf.math.multiply(gathered, tf.reshape(nodeWeights, [1, *nodeWeights.shape, 1]))\<close>:
  the weights, of shape \<open>(1, rows, cols, 1)\<close> after the reshape, are broadcast over batch
  and features.
\<close>

definition tf_multiply :: "tensor4 \<Rightarrow> tensor2 \<Rightarrow> error + tensor4" where
  "tf_multiply g nodeWeights =
     (case broadcast_dim (parts4 g) (rows2 nodeWeights) of
        Inl err \<Rightarrow> Inl err
      | Inr P \<Rightarrow>
          (case broadcast_dim (slots4 g) (cols2 nodeWeights) of
             Inl err \<Rightarrow> Inl err
           | Inr L \<Rightarrow>
               Inr \<lparr>batch4 = batch4 g, parts4 = P, slots4 = L, features4 = features4 g,
                    at4 = (\<lambda>b i k f.
                       at4 g b (stretch (parts4 g) i) (stretch (slots4 g) k) f
                         * at2 nodeWeights (stretch (rows2 nodeWeights) i)
                                           (stretch (cols2 nodeWeights) k))\<rparr>))"

text \<open>\<^verbatim>\<open>tf.math.reduce_sum(product, axis=2)\<close>.\<close>

definition reduce_sum_axis2 :: "tensor4 \<Rightarrow> tensor3" where
  "reduce_sum_axis2 g =
     \<lparr>batch = batch4 g, axis1 = parts4 g, features = features4 g,
      at3 = (\<lambda>b i f. sum_list (map (\<lambda>k. at4 g b i k f) [0..<slots4 g]))\<rparr>"

text \<open>
  \<^verbatim>\<open>tf.math.reduce_max(gathered, axis=2)\<close>. Over an empty axis TensorFlow returns
  \<open>-inf\<close>, which the reals do not have; \<open>tf_gather\<close> never returns an empty axis 2.
\<close>

definition max_list :: "real list \<Rightarrow> real" where
  "max_list xs = fold max (tl xs) (hd xs)"

definition reduce_max_axis2 :: "tensor4 \<Rightarrow> tensor3" where
  "reduce_max_axis2 g =
     \<lparr>batch = batch4 g, axis1 = parts4 g, features = features4 g,
      at3 = (\<lambda>b i f. max_list (map (\<lambda>k. at4 g b i k f) [0..<slots4 g]))\<rparr>"

text \<open>
  \<^verbatim>\<open>tf.math.divide(summed, tf.reshape(partitionSizes, [1, *partitionSizes.shape, 1]))\<close>.
  A zero divisor gives \<open>inf\<close> or \<open>nan\<close> in floating point and no exception; the reals
  have neither, so what the model returns at a zero divisor means nothing, and the
  theorems below establish that the divisors of the layer are not zero.
\<close>

definition tf_divide :: "tensor3 \<Rightarrow> tensor1 \<Rightarrow> error + tensor3" where
  "tf_divide s partitionSizes =
     (case broadcast_dim (axis1 s) (len1 partitionSizes) of
        Inl err \<Rightarrow> Inl err
      | Inr P \<Rightarrow>
          Inr \<lparr>batch = batch s, axis1 = P, features = features s,
               at3 = (\<lambda>b i f. at3 s b (stretch (axis1 s) i) f
                                 / at1 partitionSizes (stretch (len1 partitionSizes) i))\<rparr>)"

section \<open>algorithm.py\<close>

text \<open>
  The three pooling functions. An exception of a primitive ends the call. The model
  reports the exceptions in the order of the expression, the gather's first. Where the
  tables have both a shape that does not broadcast and an index out of range, the traced
  function of the source meets the shape error first; the statements below about
  exceptions are made for tables of matching shape, where the two orders agree.
\<close>

definition maxPartitionPooling :: "tensor3 \<Rightarrow> int list list \<Rightarrow> error + tensor3" where
  "maxPartitionPooling tensor partitions =
     (case tf_gather tensor partitions of
        Inl err \<Rightarrow> Inl err
      | Inr g \<Rightarrow> Inr (reduce_max_axis2 g))"

definition sumPartitionPooling ::
  "tensor3 \<Rightarrow> tensor2 \<Rightarrow> int list list \<Rightarrow> error + tensor3" where
  "sumPartitionPooling tensor nodeWeights partitions =
     (case tf_gather tensor partitions of
        Inl err \<Rightarrow> Inl err
      | Inr g \<Rightarrow>
          (case tf_multiply g nodeWeights of
             Inl err \<Rightarrow> Inl err
           | Inr product \<Rightarrow> Inr (reduce_sum_axis2 product)))"

definition averagePartitionPooling ::
  "tensor3 \<Rightarrow> tensor2 \<Rightarrow> tensor1 \<Rightarrow> int list list \<Rightarrow> error + tensor3" where
  "averagePartitionPooling tensor nodeWeights partitionSizes partitions =
     (case tf_gather tensor partitions of
        Inl err \<Rightarrow> Inl err
      | Inr g \<Rightarrow>
          (case tf_multiply g nodeWeights of
             Inl err \<Rightarrow> Inl err
           | Inr product \<Rightarrow> tf_divide (reduce_sum_axis2 product) partitionSizes))"

section \<open>The layer classes of layer.py\<close>

text \<open>
  Each constructor runs \<open>adjustPartitionLength\<close> once and keeps the tables; an exception
  raised there leaves no layer. \<open>call\<close> hands the kept tables to the pooling function.
\<close>

record PartitionPooling =
  partitions :: "int list list"
  adjustedPartitions :: "int list list"
  countWeights :: "real list list"

record SumPartitionPooling = PartitionPooling +
  nodeWeights :: tensor2

record AveragePartitionPooling = PartitionPooling +
  nodeWeight :: tensor2
  partitionSizes :: tensor1

definition PartitionPooling_init :: "int list list \<Rightarrow> error + PartitionPooling" where
  "PartitionPooling_init part =
     (case adjustPartitionLength part of
        Inl err \<Rightarrow> Inl err
      | Inr (adj, cw) \<Rightarrow>
          Inr \<lparr>partitions = part, adjustedPartitions = adj, countWeights = cw\<rparr>)"

definition MaxPartitionPooling_init :: "int list list \<Rightarrow> error + PartitionPooling" where
  "MaxPartitionPooling_init part = PartitionPooling_init part"

definition MaxPartitionPooling_call :: "PartitionPooling \<Rightarrow> tensor3 \<Rightarrow> error + tensor3" where
  "MaxPartitionPooling_call self layer = maxPartitionPooling layer (adjustedPartitions self)"

definition SumPartitionPooling_init :: "int list list \<Rightarrow> error + SumPartitionPooling" where
  "SumPartitionPooling_init part =
     (case PartitionPooling_init part of
        Inl err \<Rightarrow> Inl err
      | Inr base \<Rightarrow>
          Inr (PartitionPooling.extend base
                 \<lparr>nodeWeights = tf_constant2 (countWeights base)\<rparr>))"

definition SumPartitionPooling_call ::
  "SumPartitionPooling \<Rightarrow> tensor3 \<Rightarrow> error + tensor3" where
  "SumPartitionPooling_call self layer =
     sumPartitionPooling layer (nodeWeights self) (adjustedPartitions self)"

definition AveragePartitionPooling_init ::
  "int list list \<Rightarrow> error + AveragePartitionPooling" where
  "AveragePartitionPooling_init part =
     (case PartitionPooling_init part of
        Inl err \<Rightarrow> Inl err
      | Inr base \<Rightarrow>
          Inr (PartitionPooling.extend base
                 \<lparr>nodeWeight = tf_constant2 (countWeights base),
                  partitionSizes = tf_constant1 (np_sum_last (countWeights base))\<rparr>))"

definition AveragePartitionPooling_call ::
  "AveragePartitionPooling \<Rightarrow> tensor3 \<Rightarrow> error + tensor3" where
  "AveragePartitionPooling_call self layer =
     averagePartitionPooling layer (nodeWeight self) (partitionSizes self)
       (adjustedPartitions self)"

section \<open>Vocabulary of the statements\<close>

text \<open>
  Pointwise sum and scalar multiple of feature tensors, to state linearity, and the
  conversion between a tensor and the nested list of its elements, to write concrete
  tensors down.
\<close>

definition tensor_add :: "tensor3 \<Rightarrow> tensor3 \<Rightarrow> tensor3" where
  "tensor_add x y =
     \<lparr>batch = batch x, axis1 = axis1 x, features = features x,
      at3 = (\<lambda>b n f. at3 x b n f + at3 y b n f)\<rparr>"

definition tensor_scale :: "real \<Rightarrow> tensor3 \<Rightarrow> tensor3" where
  "tensor_scale c x =
     \<lparr>batch = batch x, axis1 = axis1 x, features = features x,
      at3 = (\<lambda>b n f. c * at3 x b n f)\<rparr>"

definition tensor3_of_lists :: "real list list list \<Rightarrow> tensor3" where
  "tensor3_of_lists xsss =
     \<lparr>batch = length xsss,
      axis1 = (case xsss of [] \<Rightarrow> 0 | m # _ \<Rightarrow> length m),
      features = (case concat xsss of [] \<Rightarrow> 0 | r # _ \<Rightarrow> length r),
      at3 = (\<lambda>b n f. xsss ! b ! n ! f)\<rparr>"


definition lists_of_tensor3 :: "tensor3 \<Rightarrow> real list list list" where
  "lists_of_tensor3 t =
     map (\<lambda>b. map (\<lambda>i. map (\<lambda>f. at3 t b i f) [0..<features t]) [0..<axis1 t])
       [0..<batch t]"

section \<open>Facts about the normalizer\<close>

lemma py_max_eq:
  assumes "l \<noteq> []"
  shows "py_max l = Inr (Max (set l))"
proof -
  obtain a as where l: "l = a # as" using assms by (cases l) auto
  show ?thesis unfolding l py_max_def Max.set_eq_fold by simp
qed

lemma fill_rows_general:
  assumes "i + length es \<le> length adj" "i + length es \<le> length cw"
    and "\<forall>k. i \<le> k \<and> k < i + length es \<longrightarrow> cw ! k = replicate maxLen 1"
  shows "fill_rows maxLen i es (adj, cw) =
     (if \<exists>e\<in>set es. e = [] \<and> 0 < maxLen then Inl ValueError
      else Inr (take i adj @ map (\<lambda>e. e @ replicate (maxLen - length e) (last e)) es @ drop (i + length es) adj,
                take i cw @ map (\<lambda>e. assign_tail (replicate maxLen 1) (maxLen - length e + 1) (1 / real (maxLen - length e + 1))) es
                  @ drop (i + length es) cw))"
  using assms
proof (induction es arbitrary: i adj cw)
  case Nil
  then show ?case by simp
next
  case (Cons e es)
  let ?row = "e @ replicate (maxLen - length e) (last e)"
  let ?w = "assign_tail (replicate maxLen 1) (maxLen - length e + 1) (1 / real (maxLen - length e + 1))"
  show ?case
  proof (cases "e = [] \<and> 0 < maxLen")
    case True
    then show ?thesis by (simp add: np_pad_edge_def)
  next
    case False
    then have pad: "np_pad_edge e (maxLen - length e) = Inr ?row"
      by (auto simp: np_pad_edge_def)
    have cwi: "cw ! i = replicate maxLen 1" using Cons.prems(3) by simp
    have i_lt: "i < length adj" "i < length cw" using Cons.prems by simp_all
    have step: "fill_rows maxLen i (e # es) (adj, cw)
        = fill_rows maxLen (Suc i) es (adj[i := ?row], cw[i := ?w])"
      using pad cwi by (simp add: Let_def)
    have inv: "\<forall>k. Suc i \<le> k \<and> k < Suc i + length es \<longrightarrow> (cw[i := ?w]) ! k = replicate maxLen 1"
      using Cons.prems(3) by auto
    have IH: "fill_rows maxLen (Suc i) es (adj[i := ?row], cw[i := ?w]) = 
       (if \<exists>e\<in>set es. e = [] \<and> 0 < maxLen then Inl ValueError
      else Inr (take (Suc i) (adj[i := ?row]) @ map (\<lambda>e. e @ replicate (maxLen - length e) (last e)) es @ drop (Suc i + length es) (adj[i := ?row]),
                take (Suc i) (cw[i := ?w]) @ map (\<lambda>e. assign_tail (replicate maxLen 1) (maxLen - length e + 1) (1 / real (maxLen - length e + 1))) es
                  @ drop (Suc i + length es) (cw[i := ?w])))"
      using Cons.prems inv by (intro Cons.IH) simp_all
    have t1: "take (Suc i) (adj[i := ?row]) = take i adj @ [?row]"
      using i_lt by (simp add: take_Suc_conv_app_nth)
    have t2: "take (Suc i) (cw[i := ?w]) = take i cw @ [?w]"
      using i_lt by (simp add: take_Suc_conv_app_nth)
    show ?thesis
      unfolding step IH t1 t2 using False by auto
  qed
qed

lemma adjustPartitionLength_eq:
  assumes "part \<noteq> []"
  shows "adjustPartitionLength part =
     (if \<exists>e\<in>set part. e = [] \<and> 0 < Max (length ` set part) then Inl ValueError
      else Inr (map (\<lambda>e. e @ replicate (Max (length ` set part) - length e) (last e)) part,
                map (\<lambda>e. assign_tail (replicate (Max (length ` set part)) 1) (Max (length ` set part) - length e + 1)
                        (1 / real (Max (length ` set part) - length e + 1))) part))"
proof -
  have m: "py_max (map length part) = Inr (Max (length ` set part))"
    using assms by (simp add: py_max_eq)
  show ?thesis
    unfolding adjustPartitionLength_def Let_def m
    by (simp add: fill_rows_general)
qed

lemma adjustPartitionLength_empty: "adjustPartitionLength [] = Inl ValueError"
  by (simp add: adjustPartitionLength_def py_max_def)

lemma length_le_maxLen: "e \<in> set part \<Longrightarrow> length e \<le> Max (length ` set part)"
  by simp

lemma maxLen_pos_iff: "part \<noteq> [] \<Longrightarrow> 0 < Max (length ` set part) \<longleftrightarrow> (\<exists>e\<in>set part. e \<noteq> [])"
  by (subst Max_gr_iff) auto

lemma assign_tail_ones:
  assumes "e \<noteq> []" "length e \<le> M"
  shows "assign_tail (replicate M 1) (M - length e + 1) v
           = replicate (length e - 1) 1 @ replicate (M - length e + 1) v"
proof -
  have len: "0 < length e" using assms by simp
  have a: "M - (M - length e + 1) = length e - 1" using assms(2) len by arith
  have b: "M - (length e - 1) = M - length e + 1" using assms(2) len by arith
  have c: "min (length e - 1) M = length e - 1" using assms(2) by arith
  show ?thesis
    unfolding assign_tail_def Let_def length_replicate a b take_replicate c ..
qed

lemma weight_row_sum:
  "sum_list (replicate (n - 1) (1::real) @ replicate (d + 1) (1 / real (d + 1))) = real (n - 1) + 1"
proof -
  have "real (d + 1) * (1 / real (d + 1)) = 1" by simp
  then show ?thesis
    unfolding sum_list_append sum_list_replicate by simp
qed

subsection \<open>Lists, broadcasting and the padded rows\<close>

lemma stretch_id: "i < d \<Longrightarrow> stretch d i = i"
  by (auto simp: stretch_def)

lemma broadcast_dim_same: "broadcast_dim a a = Inr a"
  by (simp add: broadcast_dim_def)

lemma map_index_zip:
  assumes "length xs = n" "length ys = n"
  shows "map (\<lambda>k. f (xs ! k) (ys ! k)) [0..<n] = map (\<lambda>(x, y). f x y) (zip xs ys)"
  using assms by (intro nth_equalityI) simp_all

lemma map_index_nth:
  assumes "length xs = n"
  shows "map (\<lambda>k. f (xs ! k)) [0..<n] = map f xs"
  using assms by (intro nth_equalityI) simp_all

lemma max_list_eq:
  assumes "xs \<noteq> []"
  shows "max_list xs = Max (set xs)"
proof -
  obtain a as where xs: "xs = a # as" using assms by (cases xs) auto
  show ?thesis unfolding xs max_list_def Max.set_eq_fold by simp
qed

lemma padded_weighted_sum:
  fixes h :: "int \<Rightarrow> real"
  assumes "e \<noteq> []"
  shows "sum_list (map (\<lambda>(j, w). h j * w)
            (zip (e @ replicate d (last e))
                 (replicate (length e - 1) 1 @ replicate (d + 1) (1 / real (d + 1)))))
         = sum_list (map h e)"
proof -
  obtain bs l where e: "e = bs @ [l]" using assms by (metis append_butlast_last_id)
  have row: "e @ replicate d (last e) = bs @ replicate (d + 1) l"
    by (simp add: e replicate_append_same)
  have z: "zip (bs @ replicate (d + 1) l)
               (replicate (length bs) (1::real) @ replicate (d + 1) (1 / real (d + 1)))
           = zip bs (replicate (length bs) 1) @ zip (replicate (d + 1) l) (replicate (d + 1) (1 / real (d + 1)))"
    by (intro zip_append) simp
  have s1: "sum_list (map (\<lambda>(j, w). h j * w) (zip bs (replicate (length bs) (1::real)))) = sum_list (map h bs)"
    by (induction bs) simp_all
  have z2: "zip (replicate (d + 1) l) (replicate (d + 1) (1 / real (d + 1)))
            = replicate (d + 1) (l, 1 / real (d + 1))"
    by (intro nth_equalityI) simp_all
  have s2: "sum_list (map (\<lambda>(j, w). h j * w) (replicate (d + 1) (l, 1 / real (d + 1)))) = h l"
  proof -
    have "real (d + 1) * (h l * (1 / real (d + 1))) = h l" by simp
    then show ?thesis unfolding map_replicate sum_list_replicate by simp
  qed
  have len: "length e - 1 = length bs" by (simp add: e)
  show ?thesis
    unfolding row len z map_append sum_list_append s1 z2 s2
    by (simp add: e)
qed

lemma padded_max:
  fixes h :: "int \<Rightarrow> real"
  assumes "e \<noteq> []"
  shows "max_list (map h (e @ replicate d (last e))) = Max (h ` set e)"
proof -
  have "set (e @ replicate d (last e)) = set e"
    using assms by (cases "d = 0") auto
  then have s: "set (map h (e @ replicate d (last e))) = h ` set e" by (simp only: set_map)
  have ne: "map h (e @ replicate d (last e)) \<noteq> []" using assms by simp
  show ?thesis using max_list_eq [OF ne] s by simp
qed

lemma adjustPartitionLength_valid:
  assumes "part \<noteq> []" "\<forall>e\<in>set part. e \<noteq> []"
  shows "adjustPartitionLength part =
     Inr (map (\<lambda>e. e @ replicate (Max (length ` set part) - length e) (last e)) part,
          map (\<lambda>e. replicate (length e - 1) 1
                     @ replicate (Max (length ` set part) - length e + 1)
                         (1 / real (Max (length ` set part) - length e + 1))) part)"
proof -
  have "map (\<lambda>e. assign_tail (replicate (Max (length ` set part)) 1)
                   (Max (length ` set part) - length e + 1)
                   (1 / real (Max (length ` set part) - length e + 1))) part
      = map (\<lambda>e. replicate (length e - 1) 1
                     @ replicate (Max (length ` set part) - length e + 1)
                         (1 / real (Max (length ` set part) - length e + 1))) part"
    using assms(2) by (intro map_cong refl assign_tail_ones) simp_all
  then show ?thesis
    using assms by (simp add: adjustPartitionLength_eq)
qed

lemma PartitionPooling_init_valid:
  assumes "part \<noteq> []" "\<forall>e\<in>set part. e \<noteq> []"
  shows "PartitionPooling_init part =
     Inr \<lparr>partitions = part,
          adjustedPartitions = map (\<lambda>e. e @ replicate (Max (length ` set part) - length e) (last e)) part,
          countWeights = map (\<lambda>e. replicate (length e - 1) 1
                     @ replicate (Max (length ` set part) - length e + 1)
                         (1 / real (Max (length ` set part) - length e + 1))) part\<rparr>"
  by (simp add: PartitionPooling_init_def adjustPartitionLength_valid [OF assms])

lemma tf_gather_ok:
  assumes "rectangular p" "concat p \<noteq> []" "\<forall>j\<in>set (concat p). 0 \<le> j \<and> j < int (axis1 t)"
  shows "tf_gather t p =
     Inr \<lparr>batch4 = batch t, parts4 = length p, slots4 = length (hd p), features4 = features t,
          at4 = (\<lambda>b i k f. at3 t b (nat (p ! i ! k)) f)\<rparr>"
proof -
  have "\<not> list_ex (\<lambda>j. j < 0 \<or> int (axis1 t) \<le> j) (concat p)"
    using assms(3) unfolding list_ex_iff by (meson not_le)
  then show ?thesis using assms(1,2) by (simp add: tf_gather_def)
qed

lemma adjusted_table:
  assumes "part \<noteq> []" "\<forall>e\<in>set part. e \<noteq> []"
  defines "adj \<equiv> map (\<lambda>e. e @ replicate (Max (length ` set part) - length e) (last e)) part"
  shows "rectangular adj" "concat adj \<noteq> []" "length (hd adj) = Max (length ` set part)"
    "set (concat adj) = set (concat part)" "length adj = length part"
proof -
  have len: "length r = Max (length ` set part)" if "r \<in> set adj" for r
  proof -
    from that obtain e where "e \<in> set part" "r = e @ replicate (Max (length ` set part) - length e) (last e)"
      by (auto simp: adj_def)
    then show ?thesis using length_le_maxLen [of e part] by simp
  qed
  have ne: "adj \<noteq> []" using assms(1) by (simp add: adj_def)
  then have "hd adj \<in> set adj" by simp
  then show h: "length (hd adj) = Max (length ` set part)" by (rule len)
  show "rectangular adj" unfolding rectangular_def list_all_iff using len h by simp
  have rows: "set (e @ replicate d (last e)) = set e" if "e \<noteq> []" for e :: "int list" and d
    using that by (cases "d = 0") auto
  show "set (concat adj) = set (concat part)"
    using assms(2) by (auto simp: adj_def rows)
  have "hd part \<in> set part" using assms(1) by simp
  then have "hd part \<noteq> []" using assms(2) by blast
  then have "concat part \<noteq> []" using \<open>hd part \<in> set part\<close> by auto
  then have "set (concat part) \<noteq> {}" by simp
  then show "concat adj \<noteq> []" using \<open>set (concat adj) = set (concat part)\<close> by (metis set_empty)
  show "length adj = length part" by (simp add: adj_def)
qed

section \<open>Facts about the pooling functions\<close>

lemma tf_multiply_same_shape:
  assumes "rows2 w = parts4 g" "cols2 w = slots4 g"
  shows "tf_multiply g w =
     Inr \<lparr>batch4 = batch4 g, parts4 = parts4 g, slots4 = slots4 g, features4 = features4 g,
          at4 = (\<lambda>b i k f. at4 g b (stretch (parts4 g) i) (stretch (slots4 g) k) f
                         * at2 w (stretch (parts4 g) i) (stretch (slots4 g) k))\<rparr>"
  using assms by (simp add: tf_multiply_def broadcast_dim_same)

lemma sumPartitionPooling_ok:
  assumes "rectangular p" "concat p \<noteq> []" "\<forall>j\<in>set (concat p). 0 \<le> j \<and> j < int (axis1 t)"
    and "rows2 w = length p" "cols2 w = length (hd p)"
  shows "sumPartitionPooling t w p =
     Inr \<lparr>batch = batch t, axis1 = length p, features = features t,
          at3 = (\<lambda>b i f. sum_list (map (\<lambda>k.
                   at3 t b (nat (p ! stretch (length p) i ! stretch (length (hd p)) k)) f
                     * at2 w (stretch (length p) i) (stretch (length (hd p)) k))
                 [0..<length (hd p)]))\<rparr>"
  unfolding sumPartitionPooling_def tf_gather_ok [OF assms(1-3)]
  by (simp add: tf_multiply_same_shape assms(4,5) reduce_sum_axis2_def)

lemma sumPartitionPooling_at:
  assumes "rectangular p" "concat p \<noteq> []" "\<forall>j\<in>set (concat p). 0 \<le> j \<and> j < int (axis1 t)"
    and "rows2 w = length p" "cols2 w = length (hd p)"
  shows "\<exists>out. sumPartitionPooling t w p = Inr out \<and> batch out = batch t
            \<and> axis1 out = length p \<and> features out = features t
            \<and> (\<forall>b i f. i < length p \<longrightarrow>
                 at3 out b i f = sum_list (map (\<lambda>k. at3 t b (nat (p ! i ! k)) f * at2 w i k)
                                             [0..<length (hd p)]))"
proof -
  have "sum_list (map (\<lambda>k.
                   at3 t b (nat (p ! stretch (length p) i ! stretch (length (hd p)) k)) f
                     * at2 w (stretch (length p) i) (stretch (length (hd p)) k))
                 [0..<length (hd p)])
        = sum_list (map (\<lambda>k. at3 t b (nat (p ! i ! k)) f * at2 w i k) [0..<length (hd p)])"
    if "i < length p" for b i f
    using that by (intro arg_cong [where f = sum_list] map_cong refl) (simp add: stretch_id)
  then show ?thesis
    unfolding sumPartitionPooling_ok [OF assms] by simp
qed

lemma maxPartitionPooling_at:
  assumes "rectangular p" "concat p \<noteq> []" "\<forall>j\<in>set (concat p). 0 \<le> j \<and> j < int (axis1 t)"
  shows "\<exists>out. maxPartitionPooling t p = Inr out \<and> batch out = batch t
            \<and> axis1 out = length p \<and> features out = features t
            \<and> (\<forall>b i f. at3 out b i f = max_list (map (\<lambda>k. at3 t b (nat (p ! i ! k)) f)
                                             [0..<length (hd p)]))"
  unfolding maxPartitionPooling_def tf_gather_ok [OF assms(1-3)]
  by (simp add: reduce_max_axis2_def)

lemma weight_row_length:
  assumes "e \<noteq> []" "length e \<le> M"
  shows "length (replicate (length e - 1) x @ replicate (M - length e + 1) v) = M"
proof -
  have "0 < length e" using assms(1) by simp
  then have "length e - 1 + (M - length e + 1) = M" using assms(2) by arith
  then show ?thesis by simp
qed

lemma weight_table_shape:
  assumes "part \<noteq> []" "\<forall>e\<in>set part. e \<noteq> []"
  defines "M \<equiv> Max (length ` set part)"
  defines "cw \<equiv> map (\<lambda>e. replicate (length e - 1) (1::real)
                     @ replicate (M - length e + 1) (1 / real (M - length e + 1))) part"
  shows "rows2 (tf_constant2 cw) = length part" "cols2 (tf_constant2 cw) = M"
proof -
  show "rows2 (tf_constant2 cw) = length part" by (simp add: tf_constant2_def cw_def)
  have "hd part \<in> set part" using assms(1) by simp
  then have hp: "hd part \<noteq> []" "length (hd part) \<le> M"
    using assms(2) length_le_maxLen [of "hd part" part] by (auto simp: M_def)
  have "hd cw = replicate (length (hd part) - 1) (1::real)
                   @ replicate (M - length (hd part) + 1) (1 / real (M - length (hd part) + 1))"
    using assms(1) by (simp add: cw_def hd_map)
  then have "length (hd cw) = M" using weight_row_length [OF hp] by simp
  moreover have "cw \<noteq> []" using assms(1) by (simp add: cw_def)
  ultimately show "cols2 (tf_constant2 cw) = M"
    by (cases cw) (simp_all add: tf_constant2_def)
qed

lemma weighted_row_sum:
  fixes h :: "int \<Rightarrow> real"
  assumes "\<forall>e\<in>set part. e \<noteq> []" "i < length part"
  defines "M \<equiv> Max (length ` set part)"
  defines "adj \<equiv> map (\<lambda>e. e @ replicate (M - length e) (last e)) part"
  defines "cw \<equiv> map (\<lambda>e. replicate (length e - 1) (1::real)
                     @ replicate (M - length e + 1) (1 / real (M - length e + 1))) part"
  shows "sum_list (map (\<lambda>k. h (adj ! i ! k) * at2 (tf_constant2 cw) i k) [0..<M])
           = sum_list (map h (part ! i))"
proof -
  let ?e = "part ! i"
  have e: "?e \<in> set part" "?e \<noteq> []" "length ?e \<le> M"
    using assms(1,2) length_le_maxLen [of ?e part] by (auto simp: M_def)
  let ?row = "?e @ replicate (M - length ?e) (last ?e)"
  let ?w = "replicate (length ?e - 1) (1::real) @ replicate (M - length ?e + 1) (1 / real (M - length ?e + 1))"
  have r: "adj ! i = ?row" and w: "cw ! i = ?w" using assms(2) by (simp_all add: adj_def cw_def)
  have lr: "length ?row = M" using e by simp
  have lw: "length ?w = M" using e(2,3) by (rule weight_row_length)
  have "sum_list (map (\<lambda>k. h (adj ! i ! k) * at2 (tf_constant2 cw) i k) [0..<M])
          = sum_list (map (\<lambda>k. h (?row ! k) * ?w ! k) [0..<M])"
    using r w by (simp add: tf_constant2_def)
  also have "\<dots> = sum_list (map (\<lambda>(j, w). h j * w) (zip ?row ?w))"
    using map_index_zip [OF lr lw, of "\<lambda>j w. h j * w"] by simp
  also have "\<dots> = sum_list (map h ?e)"
    using padded_weighted_sum [OF e(2), of h "M - length ?e"] by simp
  finally show ?thesis .
qed

lemma row_sum_is_length:
  assumes "\<forall>e\<in>set part. e \<noteq> []" "i < length part"
  defines "M \<equiv> Max (length ` set part)"
  defines "cw \<equiv> map (\<lambda>e. replicate (length e - 1) (1::real)
                     @ replicate (M - length e + 1) (1 / real (M - length e + 1))) part"
  shows "sum_list (cw ! i) = real (length (part ! i))"
proof -
  have "part ! i \<noteq> []" using assms(1,2) by simp
  then have "real (length (part ! i) - 1) + 1 = real (length (part ! i))"
    by (cases "part ! i") simp_all
  then show ?thesis
    using assms(2) weight_row_sum [of "length (part ! i)" "M - length (part ! i)"]
    by (simp add: cw_def)
qed

lemma tf_divide_same_shape:
  assumes "len1 s = axis1 x"
  shows "tf_divide x s =
     Inr \<lparr>batch = batch x, axis1 = axis1 x, features = features x,
          at3 = (\<lambda>b i f. at3 x b (stretch (axis1 x) i) f / at1 s (stretch (axis1 x) i))\<rparr>"
  using assms by (simp add: tf_divide_def broadcast_dim_same)

lemma averagePartitionPooling_at:
  assumes "rectangular p" "concat p \<noteq> []" "\<forall>j\<in>set (concat p). 0 \<le> j \<and> j < int (axis1 t)"
    and "rows2 w = length p" "cols2 w = length (hd p)" "len1 s = length p"
  shows "\<exists>out. averagePartitionPooling t w s p = Inr out \<and> batch out = batch t
            \<and> axis1 out = length p \<and> features out = features t
            \<and> (\<forall>b i f. i < length p \<longrightarrow>
                 at3 out b i f = sum_list (map (\<lambda>k. at3 t b (nat (p ! i ! k)) f * at2 w i k)
                                             [0..<length (hd p)]) / at1 s i)"
proof -
  obtain sm where sm: "sumPartitionPooling t w p = Inr sm" "batch sm = batch t"
    "axis1 sm = length p" "features sm = features t"
    "\<forall>b i f. i < length p \<longrightarrow>
                 at3 sm b i f = sum_list (map (\<lambda>k. at3 t b (nat (p ! i ! k)) f * at2 w i k)
                                             [0..<length (hd p)])"
    using sumPartitionPooling_at [OF assms(1-5)] by blast
  have avg: "averagePartitionPooling t w s p = tf_divide sm s"
    using sm(1) unfolding averagePartitionPooling_def sumPartitionPooling_def
    by (auto split: sum.splits)
  have "len1 s = axis1 sm" using assms(6) sm(3) by simp
  then show ?thesis
    unfolding avg using sm(2-5) by (simp add: tf_divide_same_shape stretch_id)
qed

section \<open>Facts about the layers\<close>

lemma SumPartitionPooling_init_valid:
  assumes "part \<noteq> []" "\<forall>e\<in>set part. e \<noteq> []"
  shows "SumPartitionPooling_init part =
     Inr (PartitionPooling.extend
       \<lparr>partitions = part,
        adjustedPartitions = map (\<lambda>e. e @ replicate (Max (length ` set part) - length e) (last e)) part,
        countWeights = map (\<lambda>e. replicate (length e - 1) 1
                     @ replicate (Max (length ` set part) - length e + 1)
                         (1 / real (Max (length ` set part) - length e + 1))) part\<rparr>
       \<lparr>nodeWeights = tf_constant2 (map (\<lambda>e. replicate (length e - 1) 1
                     @ replicate (Max (length ` set part) - length e + 1)
                         (1 / real (Max (length ` set part) - length e + 1))) part)\<rparr>)"
  unfolding SumPartitionPooling_init_def PartitionPooling_init_valid [OF assms] by simp

lemma AveragePartitionPooling_init_valid:
  assumes "part \<noteq> []" "\<forall>e\<in>set part. e \<noteq> []"
  shows "AveragePartitionPooling_init part =
     Inr (PartitionPooling.extend
       \<lparr>partitions = part,
        adjustedPartitions = map (\<lambda>e. e @ replicate (Max (length ` set part) - length e) (last e)) part,
        countWeights = map (\<lambda>e. replicate (length e - 1) 1
                     @ replicate (Max (length ` set part) - length e + 1)
                         (1 / real (Max (length ` set part) - length e + 1))) part\<rparr>
       \<lparr>nodeWeight = tf_constant2 (map (\<lambda>e. replicate (length e - 1) 1
                     @ replicate (Max (length ` set part) - length e + 1)
                         (1 / real (Max (length ` set part) - length e + 1))) part),
        partitionSizes = tf_constant1 (np_sum_last (map (\<lambda>e. replicate (length e - 1) 1
                     @ replicate (Max (length ` set part) - length e + 1)
                         (1 / real (Max (length ` set part) - length e + 1))) part))\<rparr>)"
  unfolding AveragePartitionPooling_init_def PartitionPooling_init_valid [OF assms] by simp

lemma SumPartitionPooling_valid:
  assumes "part \<noteq> []" "\<forall>e\<in>set part. e \<noteq> []"
    and "\<forall>j\<in>set (concat part). 0 \<le> j \<and> j < int (axis1 t)"
  shows "\<exists>self out. SumPartitionPooling_init part = Inr self
            \<and> SumPartitionPooling_call self t = Inr out
            \<and> batch out = batch t \<and> axis1 out = length part \<and> features out = features t
            \<and> (\<forall>b i f. i < length part \<longrightarrow>
                  at3 out b i f = sum_list (map (\<lambda>j. at3 t b (nat j) f) (part ! i)))"
proof -
  define M where "M = Max (length ` set part)"
  define adj where "adj = map (\<lambda>e. e @ replicate (M - length e) (last e)) part"
  define cw where "cw = map (\<lambda>e. replicate (length e - 1) (1::real)
                     @ replicate (M - length e + 1) (1 / real (M - length e + 1))) part"
  define self where "self = PartitionPooling.extend
      \<lparr>partitions = part, adjustedPartitions = adj, countWeights = cw\<rparr>
      \<lparr>nodeWeights = tf_constant2 cw\<rparr>"
  have init: "SumPartitionPooling_init part = Inr self"
    unfolding SumPartitionPooling_init_valid [OF assms(1,2)] self_def adj_def cw_def M_def ..
  have tab: "rectangular adj" "concat adj \<noteq> []" "length (hd adj) = M"
    "set (concat adj) = set (concat part)" "length adj = length part"
    using adjusted_table [OF assms(1,2)] unfolding adj_def M_def by simp_all
  have inb: "\<forall>j\<in>set (concat adj). 0 \<le> j \<and> j < int (axis1 t)"
    using assms(3) tab(4) by simp
  have sel: "adjustedPartitions self = adj" "nodeWeights self = tf_constant2 cw"
    by (simp_all add: self_def PartitionPooling.defs)
  have wshape: "rows2 (tf_constant2 cw) = length adj" "cols2 (tf_constant2 cw) = length (hd adj)"
    using weight_table_shape [OF assms(1,2)] tab(3,5) unfolding cw_def M_def by simp_all
  obtain out where out: "sumPartitionPooling t (tf_constant2 cw) adj = Inr out"
    "batch out = batch t" "axis1 out = length adj" "features out = features t"
    "\<forall>b i f. i < length adj \<longrightarrow>
        at3 out b i f = sum_list (map (\<lambda>k. at3 t b (nat (adj ! i ! k)) f * at2 (tf_constant2 cw) i k)
                                             [0..<length (hd adj)])"
    using sumPartitionPooling_at [OF tab(1,2) inb wshape] by blast
  have val: "at3 out b i f = sum_list (map (\<lambda>j. at3 t b (nat j) f) (part ! i))"
    if i: "i < length part" for b i f
    using out(5) i tab(3,5)
      weighted_row_sum [OF assms(2) i, of "\<lambda>j. at3 t b (nat j) f"]
    unfolding adj_def cw_def M_def by simp
  have call: "SumPartitionPooling_call self t = Inr out"
    unfolding SumPartitionPooling_call_def sel by (rule out(1))
  show ?thesis
    using init call out(2-4) val tab(5) by (intro exI [of _ self] exI [of _ out]) simp
qed

lemma AveragePartitionPooling_valid:
  assumes "part \<noteq> []" "\<forall>e\<in>set part. e \<noteq> []"
    and "\<forall>j\<in>set (concat part). 0 \<le> j \<and> j < int (axis1 t)"
  shows "\<exists>self out. AveragePartitionPooling_init part = Inr self
            \<and> len1 (partitionSizes self) = length part
            \<and> (\<forall>i<length part. at1 (partitionSizes self) i = real (length (part ! i)))
            \<and> AveragePartitionPooling_call self t = Inr out
            \<and> batch out = batch t \<and> axis1 out = length part \<and> features out = features t
            \<and> (\<forall>b i f. i < length part \<longrightarrow>
                  at3 out b i f = sum_list (map (\<lambda>j. at3 t b (nat j) f) (part ! i))
                                    / real (length (part ! i)))"
proof -
  define M where "M = Max (length ` set part)"
  define adj where "adj = map (\<lambda>e. e @ replicate (M - length e) (last e)) part"
  define cw where "cw = map (\<lambda>e. replicate (length e - 1) (1::real)
                     @ replicate (M - length e + 1) (1 / real (M - length e + 1))) part"
  define self where "self = PartitionPooling.extend
      \<lparr>partitions = part, adjustedPartitions = adj, countWeights = cw\<rparr>
      \<lparr>nodeWeight = tf_constant2 cw, partitionSizes = tf_constant1 (np_sum_last cw)\<rparr>"
  have init: "AveragePartitionPooling_init part = Inr self"
    unfolding AveragePartitionPooling_init_valid [OF assms(1,2)] self_def adj_def cw_def M_def ..
  have tab: "rectangular adj" "concat adj \<noteq> []" "length (hd adj) = M"
    "set (concat adj) = set (concat part)" "length adj = length part"
    using adjusted_table [OF assms(1,2)] unfolding adj_def M_def by simp_all
  have inb: "\<forall>j\<in>set (concat adj). 0 \<le> j \<and> j < int (axis1 t)"
    using assms(3) tab(4) by simp
  have sel: "adjustedPartitions self = adj" "nodeWeight self = tf_constant2 cw"
    "partitionSizes self = tf_constant1 (np_sum_last cw)"
    by (simp_all add: self_def PartitionPooling.defs)
  have wshape: "rows2 (tf_constant2 cw) = length adj" "cols2 (tf_constant2 cw) = length (hd adj)"
    using weight_table_shape [OF assms(1,2)] tab(3,5) unfolding cw_def M_def by simp_all
  have slen: "len1 (tf_constant1 (np_sum_last cw)) = length adj"
    using tab(5) by (simp add: tf_constant1_def np_sum_last_def cw_def)
  have sizes: "at1 (tf_constant1 (np_sum_last cw)) i = real (length (part ! i))"
    if i: "i < length part" for i
  proof -
    have "at1 (tf_constant1 (np_sum_last cw)) i = sum_list (cw ! i)"
      using i by (simp add: tf_constant1_def np_sum_last_def cw_def)
    then show ?thesis
      using row_sum_is_length [OF assms(2) i] unfolding cw_def M_def by simp
  qed
  obtain out where out: "averagePartitionPooling t (tf_constant2 cw) (tf_constant1 (np_sum_last cw)) adj = Inr out"
    "batch out = batch t" "axis1 out = length adj" "features out = features t"
    "\<forall>b i f. i < length adj \<longrightarrow>
        at3 out b i f = sum_list (map (\<lambda>k. at3 t b (nat (adj ! i ! k)) f * at2 (tf_constant2 cw) i k)
                                             [0..<length (hd adj)])
                         / at1 (tf_constant1 (np_sum_last cw)) i"
    using averagePartitionPooling_at [OF tab(1,2) inb wshape slen] by blast
  have val: "at3 out b i f = sum_list (map (\<lambda>j. at3 t b (nat j) f) (part ! i)) / real (length (part ! i))"
    if i: "i < length part" for b i f
    using out(5) i tab(3,5) sizes [OF i]
      weighted_row_sum [OF assms(2) i, of "\<lambda>j. at3 t b (nat j) f"]
    unfolding adj_def cw_def M_def by simp
  have call: "AveragePartitionPooling_call self t = Inr out"
    unfolding AveragePartitionPooling_call_def sel by (rule out(1))
  show ?thesis
    using init call out(2-4) val tab(5) sizes slen unfolding sel [symmetric]
    by (intro exI [of _ self] exI [of _ out]) simp
qed

lemma MaxPartitionPooling_valid:
  assumes "part \<noteq> []" "\<forall>e\<in>set part. e \<noteq> []"
    and "\<forall>j\<in>set (concat part). 0 \<le> j \<and> j < int (axis1 t)"
  shows "\<exists>self out. MaxPartitionPooling_init part = Inr self
            \<and> MaxPartitionPooling_call self t = Inr out
            \<and> batch out = batch t \<and> axis1 out = length part \<and> features out = features t
            \<and> (\<forall>b i f. i < length part \<longrightarrow>
                  at3 out b i f = Max ((\<lambda>j. at3 t b (nat j) f) ` set (part ! i)))"
proof -
  define M where "M = Max (length ` set part)"
  define adj where "adj = map (\<lambda>e. e @ replicate (M - length e) (last e)) part"
  define cw where "cw = map (\<lambda>e. replicate (length e - 1) (1::real)
                     @ replicate (M - length e + 1) (1 / real (M - length e + 1))) part"
  define self where "self = \<lparr>partitions = part, adjustedPartitions = adj, countWeights = cw\<rparr>"
  have init: "MaxPartitionPooling_init part = Inr self"
    unfolding MaxPartitionPooling_init_def PartitionPooling_init_valid [OF assms(1,2)]
      self_def adj_def cw_def M_def ..
  have tab: "rectangular adj" "concat adj \<noteq> []" "length (hd adj) = M"
    "set (concat adj) = set (concat part)" "length adj = length part"
    using adjusted_table [OF assms(1,2)] unfolding adj_def M_def by simp_all
  have inb: "\<forall>j\<in>set (concat adj). 0 \<le> j \<and> j < int (axis1 t)"
    using assms(3) tab(4) by simp
  obtain out where out: "maxPartitionPooling t adj = Inr out"
    "batch out = batch t" "axis1 out = length adj" "features out = features t"
    "\<forall>b i f. at3 out b i f = max_list (map (\<lambda>k. at3 t b (nat (adj ! i ! k)) f) [0..<length (hd adj)])"
    using maxPartitionPooling_at [OF tab(1,2) inb] by blast
  have val: "at3 out b i f = Max ((\<lambda>j. at3 t b (nat j) f) ` set (part ! i))"
    if i: "i < length part" for b i f
  proof -
    let ?e = "part ! i"
    have e: "?e \<in> set part" "?e \<noteq> []" "length ?e \<le> M"
      using i assms(2) length_le_maxLen [of ?e part] by (auto simp: M_def)
    let ?row = "?e @ replicate (M - length ?e) (last ?e)"
    have r: "adj ! i = ?row" using i by (simp add: adj_def)
    have lr: "length ?row = M" using e by simp
    have "at3 out b i f = max_list (map (\<lambda>k. at3 t b (nat (?row ! k)) f) [0..<M])"
      using out(5) tab(3) r by simp
    also have "\<dots> = max_list (map (\<lambda>j. at3 t b (nat j) f) ?row)"
      using map_index_nth [OF lr, of "\<lambda>j. at3 t b (nat j) f"] by simp
    also have "\<dots> = Max ((\<lambda>j. at3 t b (nat j) f) ` set ?e)"
      by (rule padded_max [OF e(2)])
    finally show ?thesis .
  qed
  have call: "MaxPartitionPooling_call self t = Inr out"
    unfolding MaxPartitionPooling_call_def self_def using out(1) by simp
  show ?thesis
    using init call out(2-4) val tab(5) by (intro exI [of _ self] exI [of _ out]) simp
qed

section \<open>Shapes of the pooled tensors\<close>

lemma tf_gather_Inr:
  assumes "tf_gather t p = Inr g"
  shows "batch4 g = batch t" "parts4 g = length p" "slots4 g = length (hd p)"
    "features4 g = features t" "at4 g = (\<lambda>b i k f. at3 t b (nat (p ! i ! k)) f)"
  using assms by (auto simp: tf_gather_def split: if_splits)

lemma maxPartitionPooling_shape:
  assumes "maxPartitionPooling t p = Inr out"
  shows "batch out = batch t \<and> axis1 out = length p \<and> features out = features t"
proof -
  obtain g where g: "tf_gather t p = Inr g" and o: "out = reduce_max_axis2 g"
    using assms by (auto simp: maxPartitionPooling_def split: sum.splits)
  show ?thesis using tf_gather_Inr(1,2,4) [OF g] by (simp add: o reduce_max_axis2_def)
qed

lemma tf_multiply_Inr:
  assumes "tf_multiply g w = Inr pr"
  shows "batch4 pr = batch4 g" "features4 pr = features4 g"
    "broadcast_dim (parts4 g) (rows2 w) = Inr (parts4 pr)"
    "broadcast_dim (slots4 g) (cols2 w) = Inr (slots4 pr)"
  using assms by (auto simp: tf_multiply_def split: sum.splits)

lemma sumPartitionPooling_shape:
  assumes "sumPartitionPooling t w p = Inr out" "rows2 w = length p"
  shows "batch out = batch t \<and> axis1 out = length p \<and> features out = features t"
proof -
  obtain g pr where g: "tf_gather t p = Inr g" and pr: "tf_multiply g w = Inr pr"
    and o: "out = reduce_sum_axis2 pr"
    using assms(1) by (auto simp: sumPartitionPooling_def split: sum.splits)
  have "parts4 pr = length p"
    using tf_multiply_Inr(3) [OF pr] tf_gather_Inr(2) [OF g] assms(2)
    by (simp add: broadcast_dim_same)
  then show ?thesis
    using tf_gather_Inr(1,4) [OF g] tf_multiply_Inr(1,2) [OF pr]
    by (simp add: o reduce_sum_axis2_def)
qed

lemma averagePartitionPooling_shape:
  assumes "averagePartitionPooling t w s p = Inr out" "rows2 w = length p" "len1 s = length p"
  shows "batch out = batch t \<and> axis1 out = length p \<and> features out = features t"
proof -
  obtain sm where sm: "sumPartitionPooling t w p = Inr sm" and d: "tf_divide sm s = Inr out"
    using assms(1) unfolding averagePartitionPooling_def sumPartitionPooling_def
    by (auto split: sum.splits)
  have shp: "batch sm = batch t" "axis1 sm = length p" "features sm = features t"
    using sumPartitionPooling_shape [OF sm assms(2)] by simp_all
  then have "len1 s = axis1 sm" using assms(3) by simp
  then show ?thesis
    using d shp by (auto simp: tf_divide_same_shape)
qed

lemma sumPartitionPooling_broadcast:
  assumes "rectangular p" "concat p \<noteq> []" "\<forall>j\<in>set (concat p). 0 \<le> j \<and> j < int (axis1 t)"
    and "broadcast_dim (length p) (rows2 w) = Inr P"
    and "broadcast_dim (length (hd p)) (cols2 w) = Inr L"
  shows "sumPartitionPooling t w p =
     Inr \<lparr>batch = batch t, axis1 = P, features = features t,
          at3 = (\<lambda>b i f. sum_list (map (\<lambda>k.
                   at3 t b (nat (p ! stretch (length p) i ! stretch (length (hd p)) k)) f
                     * at2 w (stretch (rows2 w) i) (stretch (cols2 w) k))
                 [0..<L]))\<rparr>"
  unfolding sumPartitionPooling_def tf_gather_ok [OF assms(1-3)]
  by (simp add: tf_multiply_def assms(4,5) reduce_sum_axis2_def)

section \<open>The normalized tables\<close>

text \<open>
  Claim C6. For a partition spec with at least one group, all groups non-empty, and
  indices that fit the int64 cells of the table, \<open>adjustPartitionLength\<close> returns tables,
  and row \<open>i\<close> of the index table is group \<open>i\<close> in its own order followed by
  \<open>maxLen - len_i\<close> copies of the last index of group \<open>i\<close>, where \<open>maxLen\<close> is the
  largest group length. The row has width \<open>maxLen\<close> and holds exactly the indices of
  group \<open>i\<close>: padding adds no index the group does not have.
\<close>

theorem indexTable_rows:
  assumes "part \<noteq> []" and "\<forall>e\<in>set part. e \<noteq> []"
    and "\<forall>j\<in>set (concat part). - (2 ^ 63) \<le> j \<and> j < 2 ^ 63"
  shows "\<exists>adj cw. adjustPartitionLength part = Inr (adj, cw)
           \<and> length adj = length part
           \<and> (\<forall>i<length part.
                 adj ! i = part ! i @ replicate (Max (length ` set part) - length (part ! i))
                                         (last (part ! i))
               \<and> length (adj ! i) = Max (length ` set part)
               \<and> set (adj ! i) = set (part ! i))"
proof -
  have row: "length (e @ replicate (Max (length ` set part) - length e) (last e))
               = Max (length ` set part)
           \<and> set (e @ replicate (Max (length ` set part) - length e) (last e)) = set e"
    if "e \<in> set part" for e
  proof -
    have "e \<noteq> []" "length e \<le> Max (length ` set part)"
      using that assms(2) length_le_maxLen by auto
    then show ?thesis by (cases "Max (length ` set part) - length e = 0") auto
  qed
  show ?thesis
    unfolding adjustPartitionLength_valid [OF assms(1,2)]
    using row by simp
qed

theorem indexTable_rows_witness:
  "\<exists>adj cw. adjustPartitionLength [[0, 1], [2]] = Inr (adj, cw)
          \<and> length adj = 2 \<and> adj ! 0 = [0, 1] \<and> adj ! 1 = [2, 2]"
  using indexTable_rows [of "[[0, 1], [2]]"]
  by (simp add: All_less_Suc numeral_2_eq_2) blast

text \<open>
  Claim C5. With \<open>padCount = maxLen - len_i\<close>: if \<open>padCount > 0\<close>, the first \<open>len_i - 1\<close>
  weights of row \<open>i\<close> are 1 and the last \<open>padCount + 1\<close> weights, the last real slot
  and all pad slots, are \<open>1 / (padCount + 1)\<close>; the last real slot therefore carries a
  weight below 1. If \<open>padCount = 0\<close> every weight of the row is 1.
\<close>

theorem weightTable_rows:
  assumes "part \<noteq> []" and "\<forall>e\<in>set part. e \<noteq> []"
  shows "\<exists>adj cw. adjustPartitionLength part = Inr (adj, cw)
           \<and> length cw = length part
           \<and> (\<forall>i<length part.
                 length (cw ! i) = Max (length ` set part)
               \<and> (0 < Max (length ` set part) - length (part ! i) \<longrightarrow>
                     take (length (part ! i) - 1) (cw ! i) = replicate (length (part ! i) - 1) 1
                   \<and> drop (length (part ! i) - 1) (cw ! i)
                       = replicate (Max (length ` set part) - length (part ! i) + 1)
                           (1 / real (Max (length ` set part) - length (part ! i) + 1))
                   \<and> cw ! i ! (length (part ! i) - 1) < 1)
               \<and> (Max (length ` set part) - length (part ! i) = 0 \<longrightarrow>
                     cw ! i = replicate (Max (length ` set part)) 1))"
proof -
  define M where "M = Max (length ` set part)"
  have row: "length (replicate (length e - 1) (1::real) @ replicate (M - length e + 1) (1 / real (M - length e + 1))) = M
     \<and> (0 < M - length e \<longrightarrow>
          take (length e - 1) (replicate (length e - 1) (1::real) @ replicate (M - length e + 1) (1 / real (M - length e + 1)))
             = replicate (length e - 1) 1
        \<and> drop (length e - 1) (replicate (length e - 1) (1::real) @ replicate (M - length e + 1) (1 / real (M - length e + 1)))
             = replicate (M - length e + 1) (1 / real (M - length e + 1))
        \<and> (replicate (length e - 1) (1::real) @ replicate (M - length e + 1) (1 / real (M - length e + 1))) ! (length e - 1) < 1)
     \<and> (M - length e = 0 \<longrightarrow>
          replicate (length e - 1) (1::real) @ replicate (M - length e + 1) (1 / real (M - length e + 1)) = replicate M 1)"
    if "e \<in> set part" for e
  proof -
    have e: "e \<noteq> []" "length e \<le> M"
      using that assms(2) length_le_maxLen by (auto simp: M_def)
    have 1: "length (replicate (length e - 1) (1::real) @ replicate (M - length e + 1) (1 / real (M - length e + 1))) = M"
      using e by (rule weight_row_length)
    have 2: "(replicate (length e - 1) (1::real) @ replicate (M - length e + 1) (1 / real (M - length e + 1))) ! (length e - 1) < 1"
      if "0 < M - length e"
      using that by (simp add: nth_append)
    have 3: "replicate (length e - 1) (1::real) @ replicate (M - length e + 1) (1 / real (M - length e + 1)) = replicate M 1"
      if "M - length e = 0"
    proof -
      have "length e - 1 + 1 = M" using that e by (cases e) auto
      then have "replicate M (1::real) = replicate (length e - 1) 1 @ replicate 1 1"
        by (metis replicate_add)
      then show ?thesis using that by simp
    qed
    show ?thesis using 1 2 3 by simp
  qed
  show ?thesis
    unfolding adjustPartitionLength_valid [OF assms] M_def [symmetric]
    using row by simp
qed

theorem weightTable_rows_witness:
  "\<exists>adj cw. adjustPartitionLength [[0, 1, 5], [2]] = Inr (adj, cw)
          \<and> length cw = 2 \<and> cw ! 0 = [1, 1, 1] \<and> cw ! 1 = [1 / 3, 1 / 3, 1 / 3]"
  using weightTable_rows [of "[[0, 1, 5], [2]]"]
  by (simp add: All_less_Suc numeral_2_eq_2 numeral_3_eq_3) blast

text \<open>
  Claim C2. For a partition spec with at least one group, all groups non-empty, the
  weights of row \<open>i\<close> sum, in exact arithmetic, to the length of group \<open>i\<close> before
  padding, and entry \<open>i\<close> of \<open>partitionSizes\<close>, which the average layer computes as the
  sum of row \<open>i\<close>, is that same number. This covers equal-length groups (no padding) and
  a group of length 1 beside one of length \<open>N\<close>.
\<close>

theorem weight_rows_sum_to_group_length:
  assumes "part \<noteq> []" and "\<forall>e\<in>set part. e \<noteq> []"
  shows "\<exists>adj cw self. adjustPartitionLength part = Inr (adj, cw)
           \<and> AveragePartitionPooling_init part = Inr self
           \<and> countWeights self = cw
           \<and> len1 (partitionSizes self) = length part
           \<and> (\<forall>i<length part.
                 sum_list (cw ! i) = real (length (part ! i))
               \<and> at1 (partitionSizes self) i = sum_list (cw ! i))"
proof -
  define cw where "cw = map (\<lambda>e. replicate (length e - 1) (1::real)
        @ replicate (Max (length ` set part) - length e + 1)
            (1 / real (Max (length ` set part) - length e + 1))) part"
  have rows: "sum_list (cw ! i) = real (length (part ! i))" if "i < length part" for i
    using row_sum_is_length [OF assms(2) that] unfolding cw_def .
  have sizes: "at1 (tf_constant1 (np_sum_last cw)) i = sum_list (cw ! i)" if "i < length part" for i
    using that by (simp add: tf_constant1_def np_sum_last_def cw_def)
  have len: "len1 (tf_constant1 (np_sum_last cw)) = length part"
    by (simp add: tf_constant1_def np_sum_last_def cw_def)
  show ?thesis
    unfolding adjustPartitionLength_valid [OF assms] AveragePartitionPooling_init_valid [OF assms]
      cw_def [symmetric]
    using rows sizes len by (simp add: PartitionPooling.defs)
qed

theorem weight_rows_sum_to_group_length_witness:
  "\<exists>adj cw self. adjustPartitionLength [[4], [0, 1, 2, 3]] = Inr (adj, cw)
      \<and> AveragePartitionPooling_init [[4], [0, 1, 2, 3]] = Inr self
      \<and> sum_list (cw ! 0) = 1 \<and> at1 (partitionSizes self) 0 = 1
      \<and> sum_list (cw ! 1) = 4 \<and> at1 (partitionSizes self) 1 = 4"
  using weight_rows_sum_to_group_length [of "[[4], [0, 1, 2, 3]]"]
  by (simp add: All_less_Suc numeral_2_eq_2) metis

section \<open>The pooled values\<close>

text \<open>
  Claim C1. For a partition spec with at least one group, all groups non-empty, and a
  feature tensor that has a node for every index of the spec, the sum layer returns a
  tensor of shape \<open>(batch, P, features)\<close> whose element \<open>(b, i, f)\<close> is the plain sum of
  \<open>tensor[b, j, f]\<close> over the indices \<open>j\<close> of group \<open>i\<close> as given, each occurrence
  counted once: the padding of the table does not show in the result. Groups of size 1,
  groups with repeated indices and groups of full width are all covered.
\<close>

theorem sum_pooling_unweighted_sum:
  assumes "part \<noteq> []" and "\<forall>e\<in>set part. e \<noteq> []"
    and "\<forall>j\<in>set (concat part). 0 \<le> j \<and> j < int (axis1 t)"
  shows "\<exists>self out. SumPartitionPooling_init part = Inr self
           \<and> SumPartitionPooling_call self t = Inr out
           \<and> batch out = batch t \<and> axis1 out = length part \<and> features out = features t
           \<and> (\<forall>b<batch t. \<forall>i<length part. \<forall>f<features t.
                 at3 out b i f = (\<Sum>j\<leftarrow>part ! i. at3 t b (nat j) f))"
  using SumPartitionPooling_valid [OF assms] by blast

theorem sum_pooling_unweighted_sum_witness:
  "\<exists>self out. SumPartitionPooling_init [[0, 1], [2]] = Inr self
      \<and> SumPartitionPooling_call self (tensor3_of_lists [[[1], [3], [5]]]) = Inr out
      \<and> lists_of_tensor3 out = [[[4], [5]]]"
proof -
  obtain self out where 1: "SumPartitionPooling_init [[0, 1], [2]] = Inr self"
    "SumPartitionPooling_call self (tensor3_of_lists [[[1], [3], [5]]]) = Inr out"
    "batch out = 1" "axis1 out = 2" "features out = 1"
    "at3 out 0 0 0 = 4" "at3 out 0 1 0 = 5"
    using sum_pooling_unweighted_sum [of "[[0, 1], [2]]" "tensor3_of_lists [[[1], [3], [5]]]"]
    by (auto simp: tensor3_of_lists_def All_less_Suc numeral_2_eq_2)
  have "lists_of_tensor3 out = [[[4], [5]]]"
    using 1(3-7) by (simp add: lists_of_tensor3_def upt_rec)
  then show ?thesis using 1(1,2) by blast
qed

text \<open>
  Claim C3. Under the same conditions the average layer returns the arithmetic mean of
  \<open>tensor[b, j, f]\<close> over the indices \<open>j\<close> of group \<open>i\<close> as given; the right-hand side
  mentions no other group, so the width the other groups force on the table does not
  matter. The divisor \<open>partitionSizes[i]\<close> is the length of group \<open>i\<close> and is not zero.
\<close>

theorem average_pooling_mean:
  assumes "part \<noteq> []" and "\<forall>e\<in>set part. e \<noteq> []"
    and "\<forall>j\<in>set (concat part). 0 \<le> j \<and> j < int (axis1 t)"
  shows "\<exists>self out. AveragePartitionPooling_init part = Inr self
           \<and> AveragePartitionPooling_call self t = Inr out
           \<and> batch out = batch t \<and> axis1 out = length part \<and> features out = features t
           \<and> (\<forall>i<length part.
                 at1 (partitionSizes self) i = real (length (part ! i))
               \<and> at1 (partitionSizes self) i \<noteq> 0
               \<and> (\<forall>b<batch t. \<forall>f<features t.
                     at3 out b i f
                       = (\<Sum>j\<leftarrow>part ! i. at3 t b (nat j) f) / real (length (part ! i))))"
proof -
  obtain self out where 1: "AveragePartitionPooling_init part = Inr self"
    "\<forall>i<length part. at1 (partitionSizes self) i = real (length (part ! i))"
    "AveragePartitionPooling_call self t = Inr out"
    "batch out = batch t" "axis1 out = length part" "features out = features t"
    "\<forall>b i f. i < length part \<longrightarrow>
                  at3 out b i f = sum_list (map (\<lambda>j. at3 t b (nat j) f) (part ! i))
                                    / real (length (part ! i))"
    using AveragePartitionPooling_valid [OF assms] by blast
  have "at1 (partitionSizes self) i \<noteq> 0" if "i < length part" for i
  proof -
    have "part ! i \<noteq> []" using that assms(2) by simp
    then show ?thesis using 1(2) that by simp
  qed
  then show ?thesis using 1 by blast
qed

theorem average_pooling_mean_witness:
  "\<exists>self out. AveragePartitionPooling_init [[0, 1], [2]] = Inr self
      \<and> AveragePartitionPooling_call self (tensor3_of_lists [[[1], [3], [5]]]) = Inr out
      \<and> at1 (partitionSizes self) 0 = 2 \<and> at1 (partitionSizes self) 1 = 1
      \<and> lists_of_tensor3 out = [[[2], [5]]]"
proof -
  obtain self out where 1: "AveragePartitionPooling_init [[0, 1], [2]] = Inr self"
    "AveragePartitionPooling_call self (tensor3_of_lists [[[1], [3], [5]]]) = Inr out"
    "batch out = 1" "axis1 out = 2" "features out = 1"
    "at1 (partitionSizes self) 0 = 2" "at1 (partitionSizes self) 1 = 1"
    "at3 out 0 0 0 = 2" "at3 out 0 1 0 = 5"
    using average_pooling_mean [of "[[0, 1], [2]]" "tensor3_of_lists [[[1], [3], [5]]]"]
    by (auto simp: tensor3_of_lists_def All_less_Suc numeral_2_eq_2)
  have "lists_of_tensor3 out = [[[2], [5]]]"
    using 1(3-5,8,9) by (simp add: lists_of_tensor3_def upt_rec)
  then show ?thesis using 1(1,2,6,7) by blast
qed

text \<open>
  Claim C4. For every group \<open>part ! i\<close> with all indices in range and every number \<open>n\<close>
  of repetitions of its last member, max pooling over the padded group returns the same
  values as max pooling over the group itself, for every batch element and feature; and
  row \<open>i\<close> of the max layer's result, computed from the padded table, is that value.
\<close>

theorem max_pooling_padding_invariant:
  assumes "part \<noteq> []" and "\<forall>e\<in>set part. e \<noteq> []"
    and "\<forall>j\<in>set (concat part). 0 \<le> j \<and> j < int (axis1 t)"
  shows "\<exists>self res. MaxPartitionPooling_init part = Inr self
           \<and> MaxPartitionPooling_call self t = Inr res
           \<and> (\<forall>i<length part. \<forall>n. \<exists>out out'.
                 maxPartitionPooling t [part ! i] = Inr out
               \<and> maxPartitionPooling t [part ! i @ replicate n (last (part ! i))] = Inr out'
               \<and> batch out' = batch out \<and> axis1 out' = axis1 out
               \<and> features out' = features out
               \<and> (\<forall>b<batch t. \<forall>f<features t.
                     at3 out' b 0 f = at3 out b 0 f \<and> at3 res b i f = at3 out b 0 f))"
proof -
  obtain self res where 1: "MaxPartitionPooling_init part = Inr self"
    "MaxPartitionPooling_call self t = Inr res"
    "\<forall>b i f. i < length part \<longrightarrow>
                  at3 res b i f = Max ((\<lambda>j. at3 t b (nat j) f) ` set (part ! i))"
    using MaxPartitionPooling_valid [OF assms] by blast
  have single: "\<exists>out. maxPartitionPooling t [e @ replicate n (last e)] = Inr out
                  \<and> batch out = batch t \<and> axis1 out = 1 \<and> features out = features t
                  \<and> (\<forall>b f. at3 out b 0 f = Max ((\<lambda>j. at3 t b (nat j) f) ` set e))"
    if e: "e \<in> set part" for e n
  proof -
    have ne: "e \<noteq> []" using e assms(2) by simp
    have s: "set (e @ replicate n (last e)) = set e" using ne by (cases "n = 0") auto
    have inb: "\<forall>j\<in>set (concat [e @ replicate n (last e)]). 0 \<le> j \<and> j < int (axis1 t)"
      using assms(3) e s by auto
    have rect: "rectangular [e @ replicate n (last e)]" by (simp add: rectangular_def)
    have nonempty: "concat [e @ replicate n (last e)] \<noteq> []" using ne by simp
    obtain out where out: "maxPartitionPooling t [e @ replicate n (last e)] = Inr out"
      "batch out = batch t" "axis1 out = length [e @ replicate n (last e)]"
      "features out = features t"
      "\<forall>b i f. at3 out b i f = max_list (map (\<lambda>k. at3 t b (nat ([e @ replicate n (last e)] ! i ! k)) f)
                                             [0..<length (hd [e @ replicate n (last e)])])"
      using maxPartitionPooling_at [OF rect nonempty inb] by blast
    have "at3 out b 0 f = Max ((\<lambda>j. at3 t b (nat j) f) ` set e)" for b f
    proof -
      have "at3 out b 0 f = max_list (map (\<lambda>k. at3 t b (nat ((e @ replicate n (last e)) ! k)) f)
                                             [0..<length (e @ replicate n (last e))])"
        using out(5) by simp
      also have "\<dots> = max_list (map (\<lambda>j. at3 t b (nat j) f) (e @ replicate n (last e)))"
        using map_index_nth [OF refl, of "\<lambda>j. at3 t b (nat j) f" "e @ replicate n (last e)"] by simp
      also have "\<dots> = Max ((\<lambda>j. at3 t b (nat j) f) ` set e)"
        by (rule padded_max [OF ne])
      finally show ?thesis .
    qed
    then show ?thesis using out(1-4) by simp
  qed
  have "\<exists>out out'.
                 maxPartitionPooling t [part ! i] = Inr out
               \<and> maxPartitionPooling t [part ! i @ replicate n (last (part ! i))] = Inr out'
               \<and> batch out' = batch out \<and> axis1 out' = axis1 out
               \<and> features out' = features out
               \<and> (\<forall>b<batch t. \<forall>f<features t.
                     at3 out' b 0 f = at3 out b 0 f \<and> at3 res b i f = at3 out b 0 f)"
    if i: "i < length part" for i n
  proof -
    have e: "part ! i \<in> set part" using i by simp
    obtain out where out: "maxPartitionPooling t [part ! i] = Inr out"
      "batch out = batch t" "axis1 out = 1" "features out = features t"
      "\<forall>b f. at3 out b 0 f = Max ((\<lambda>j. at3 t b (nat j) f) ` set (part ! i))"
      using single [OF e, of 0] by auto
    obtain out' where out': "maxPartitionPooling t [part ! i @ replicate n (last (part ! i))] = Inr out'"
      "batch out' = batch t" "axis1 out' = 1" "features out' = features t"
      "\<forall>b f. at3 out' b 0 f = Max ((\<lambda>j. at3 t b (nat j) f) ` set (part ! i))"
      using single [OF e, of n] by auto
    show ?thesis
      using out out' 1(3) i by (intro exI [of _ out] exI [of _ out']) simp
  qed
  then show ?thesis using 1(1,2) by blast
qed

theorem max_pooling_padding_invariant_witness:
  "\<exists>self res out out'. MaxPartitionPooling_init [[0, 1], [2]] = Inr self
      \<and> MaxPartitionPooling_call self (tensor3_of_lists [[[1], [3], [5]]]) = Inr res
      \<and> maxPartitionPooling (tensor3_of_lists [[[1], [3], [5]]]) [[2]] = Inr out
      \<and> maxPartitionPooling (tensor3_of_lists [[[1], [3], [5]]]) [[2, 2, 2]] = Inr out'
      \<and> at3 out' 0 0 0 = at3 out 0 0 0 \<and> at3 res 0 1 0 = at3 out 0 0 0"
proof -
  let ?t = "tensor3_of_lists [[[1], [3], [5]]]"
  have h: "[[0, 1], [2::int]] \<noteq> []" "\<forall>e\<in>set [[0, 1], [2::int]]. e \<noteq> []"
    "\<forall>j\<in>set (concat [[0, 1], [2]]). 0 \<le> j \<and> j < int (axis1 ?t)"
    by (simp_all add: tensor3_of_lists_def)
  from max_pooling_padding_invariant [OF h] obtain self res where 1:
    "MaxPartitionPooling_init [[0, 1], [2]] = Inr self"
    "MaxPartitionPooling_call self ?t = Inr res"
    and 2: "\<forall>i<length [[0, 1], [2::int]]. \<forall>n. \<exists>out out'.
                 maxPartitionPooling ?t [[[0, 1], [2]] ! i] = Inr out
               \<and> maxPartitionPooling ?t [[[0, 1], [2]] ! i @ replicate n (last ([[0, 1], [2]] ! i))] = Inr out'
               \<and> batch out' = batch out \<and> axis1 out' = axis1 out
               \<and> features out' = features out
               \<and> (\<forall>b<batch ?t. \<forall>f<features ?t.
                     at3 out' b 0 f = at3 out b 0 f \<and> at3 res b i f = at3 out b 0 f)"
    by blast
  have i: "(1::nat) < length [[0, 1], [2::int]]" by simp
  from 2 [rule_format, OF i, of 2] obtain out out' where 3:
    "maxPartitionPooling ?t [[2]] = Inr out"
    "maxPartitionPooling ?t [[2, 2, 2]] = Inr out'"
    "\<forall>b<batch ?t. \<forall>f<features ?t.
        at3 out' b 0 f = at3 out b 0 f \<and> at3 res b 1 f = at3 out b 0 f"
    by (auto simp: numeral_2_eq_2)
  have "at3 out' 0 0 0 = at3 out 0 0 0 \<and> at3 res 0 1 0 = at3 out 0 0 0"
    using 3(3) by (simp add: tensor3_of_lists_def)
  then show ?thesis using 1 3(1,2) by blast
qed

text \<open>
  Claim C9. For a partition spec of \<open>P\<close> groups and a feature tensor of shape
  \<open>(batch, nodes, features)\<close> with \<open>features \<ge> 1\<close> and any batch size, including 0,
  whatever any of the three layers returns has shape \<open>(batch, P, features)\<close>; and each
  of them does return a tensor when every index of the spec is in range.
\<close>

theorem pooled_shape:
  assumes "part \<noteq> []" and "\<forall>e\<in>set part. e \<noteq> []" and "0 < features t"
  shows "\<exists>m s a. MaxPartitionPooling_init part = Inr m
           \<and> SumPartitionPooling_init part = Inr s
           \<and> AveragePartitionPooling_init part = Inr a
           \<and> (\<forall>out. MaxPartitionPooling_call m t = Inr out
                 \<or> SumPartitionPooling_call s t = Inr out
                 \<or> AveragePartitionPooling_call a t = Inr out
                \<longrightarrow> batch out = batch t \<and> axis1 out = length part
                    \<and> features out = features t)
           \<and> ((\<forall>j\<in>set (concat part). 0 \<le> j \<and> j < int (axis1 t)) \<longrightarrow>
                 (\<exists>out. MaxPartitionPooling_call m t = Inr out)
               \<and> (\<exists>out. SumPartitionPooling_call s t = Inr out)
               \<and> (\<exists>out. AveragePartitionPooling_call a t = Inr out))"
proof -
  define M where "M = Max (length ` set part)"
  define adj where "adj = map (\<lambda>e. e @ replicate (M - length e) (last e)) part"
  define cw where "cw = map (\<lambda>e. replicate (length e - 1) (1::real)
                     @ replicate (M - length e + 1) (1 / real (M - length e + 1))) part"
  define m where "m = \<lparr>partitions = part, adjustedPartitions = adj, countWeights = cw\<rparr>"
  define s where "s = PartitionPooling.extend m \<lparr>nodeWeights = tf_constant2 cw\<rparr>"
  define a where "a = PartitionPooling.extend m
      \<lparr>nodeWeight = tf_constant2 cw, partitionSizes = tf_constant1 (np_sum_last cw)\<rparr>"
  have init: "MaxPartitionPooling_init part = Inr m" "SumPartitionPooling_init part = Inr s"
    "AveragePartitionPooling_init part = Inr a"
    unfolding MaxPartitionPooling_init_def PartitionPooling_init_valid [OF assms(1,2)]
      SumPartitionPooling_init_valid [OF assms(1,2)]
      AveragePartitionPooling_init_valid [OF assms(1,2)]
      m_def s_def a_def adj_def cw_def M_def by simp_all
  have sel: "adjustedPartitions m = adj" "adjustedPartitions s = adj" "adjustedPartitions a = adj"
    "nodeWeights s = tf_constant2 cw" "nodeWeight a = tf_constant2 cw"
    "partitionSizes a = tf_constant1 (np_sum_last cw)"
    by (simp_all add: m_def s_def a_def PartitionPooling.defs)
  have len: "length adj = length part" by (simp add: adj_def)
  have wrows: "rows2 (tf_constant2 cw) = length adj"
    by (simp add: tf_constant2_def cw_def adj_def)
  have slen: "len1 (tf_constant1 (np_sum_last cw)) = length adj"
    by (simp add: tf_constant1_def np_sum_last_def cw_def adj_def)
  have shape: "\<forall>out. MaxPartitionPooling_call m t = Inr out
                 \<or> SumPartitionPooling_call s t = Inr out
                 \<or> AveragePartitionPooling_call a t = Inr out
                \<longrightarrow> batch out = batch t \<and> axis1 out = length part
                    \<and> features out = features t"
  proof (intro allI impI)
    fix out
    assume c: "MaxPartitionPooling_call m t = Inr out
                 \<or> SumPartitionPooling_call s t = Inr out
                 \<or> AveragePartitionPooling_call a t = Inr out"
    have 1: "batch out = batch t \<and> axis1 out = length part \<and> features out = features t"
      if "MaxPartitionPooling_call m t = Inr out"
      using that maxPartitionPooling_shape [of t adj out]
      unfolding MaxPartitionPooling_call_def sel len by simp
    have 2: "batch out = batch t \<and> axis1 out = length part \<and> features out = features t"
      if "SumPartitionPooling_call s t = Inr out"
      using that sumPartitionPooling_shape [of t "tf_constant2 cw" adj out, OF _ wrows]
      unfolding SumPartitionPooling_call_def sel len by simp
    have 3: "batch out = batch t \<and> axis1 out = length part \<and> features out = features t"
      if "AveragePartitionPooling_call a t = Inr out"
      using that averagePartitionPooling_shape
         [of t "tf_constant2 cw" "tf_constant1 (np_sum_last cw)" adj out, OF _ wrows slen]
      unfolding AveragePartitionPooling_call_def sel len by simp
    from c show "batch out = batch t \<and> axis1 out = length part \<and> features out = features t"
      using 1 2 3 by (elim disjE)
  qed
  have total: "(\<forall>j\<in>set (concat part). 0 \<le> j \<and> j < int (axis1 t)) \<longrightarrow>
                 (\<exists>out. MaxPartitionPooling_call m t = Inr out)
               \<and> (\<exists>out. SumPartitionPooling_call s t = Inr out)
               \<and> (\<exists>out. AveragePartitionPooling_call a t = Inr out)"
  proof
    assume inb: "\<forall>j\<in>set (concat part). 0 \<le> j \<and> j < int (axis1 t)"
    have "\<exists>out. MaxPartitionPooling_call m t = Inr out"
      using MaxPartitionPooling_valid [OF assms(1,2) inb] unfolding init(1) by auto
    moreover have "\<exists>out. SumPartitionPooling_call s t = Inr out"
      using SumPartitionPooling_valid [OF assms(1,2) inb] unfolding init(2) by auto
    moreover have "\<exists>out. AveragePartitionPooling_call a t = Inr out"
      using AveragePartitionPooling_valid [OF assms(1,2) inb] unfolding init(3) by auto
    ultimately show "(\<exists>out. MaxPartitionPooling_call m t = Inr out)
               \<and> (\<exists>out. SumPartitionPooling_call s t = Inr out)
               \<and> (\<exists>out. AveragePartitionPooling_call a t = Inr out)"
      by simp
  qed
  show ?thesis
    by (intro exI [of _ m] exI [of _ s] exI [of _ a] conjI init shape total)
qed

theorem pooled_shape_witness:
  "\<exists>m s a om os oa. MaxPartitionPooling_init [[0, 1], [2]] = Inr m
      \<and> SumPartitionPooling_init [[0, 1], [2]] = Inr s
      \<and> AveragePartitionPooling_init [[0, 1], [2]] = Inr a
      \<and> MaxPartitionPooling_call m (tensor3_of_lists [[[1], [3], [5]]]) = Inr om
      \<and> SumPartitionPooling_call s (tensor3_of_lists [[[1], [3], [5]]]) = Inr os
      \<and> AveragePartitionPooling_call a (tensor3_of_lists [[[1], [3], [5]]]) = Inr oa
      \<and> (batch om, axis1 om, features om) = (1, 2, 1)
      \<and> (batch os, axis1 os, features os) = (1, 2, 1)
      \<and> (batch oa, axis1 oa, features oa) = (1, 2, 1)"
proof -
  let ?t = "tensor3_of_lists [[[1], [3], [5]]]"
  have h: "[[0, 1], [2::int]] \<noteq> []" "\<forall>e\<in>set [[0, 1], [2::int]]. e \<noteq> []"
    "0 < features ?t"
    by (simp_all add: tensor3_of_lists_def)
  have inb: "\<forall>j\<in>set (concat [[0, 1], [2]]). 0 \<le> j \<and> j < int (axis1 ?t)"
    by (simp add: tensor3_of_lists_def)
  have shp: "batch ?t = 1" "features ?t = 1" "length [[0, 1], [2::int]] = 2"
    by (simp_all add: tensor3_of_lists_def)
  from pooled_shape [OF h] obtain m s a where init:
    "MaxPartitionPooling_init [[0, 1], [2]] = Inr m"
    "SumPartitionPooling_init [[0, 1], [2]] = Inr s"
    "AveragePartitionPooling_init [[0, 1], [2]] = Inr a"
    and sh: "\<forall>out. MaxPartitionPooling_call m ?t = Inr out
                 \<or> SumPartitionPooling_call s ?t = Inr out
                 \<or> AveragePartitionPooling_call a ?t = Inr out
                \<longrightarrow> batch out = batch ?t \<and> axis1 out = length [[0, 1], [2::int]]
                    \<and> features out = features ?t"
    and tot: "(\<forall>j\<in>set (concat [[0, 1], [2]]). 0 \<le> j \<and> j < int (axis1 ?t)) \<longrightarrow>
                 (\<exists>out. MaxPartitionPooling_call m ?t = Inr out)
               \<and> (\<exists>out. SumPartitionPooling_call s ?t = Inr out)
               \<and> (\<exists>out. AveragePartitionPooling_call a ?t = Inr out)"
    by (elim exE conjE)
  from tot inb obtain om os oa where call:
    "MaxPartitionPooling_call m ?t = Inr om"
    "SumPartitionPooling_call s ?t = Inr os"
    "AveragePartitionPooling_call a ?t = Inr oa"
    by (elim impE exE conjE)
  have "batch om = batch ?t \<and> axis1 om = length [[0, 1], [2::int]] \<and> features om = features ?t"
    by (rule sh [rule_format]) (simp add: call(1))
  moreover
  have "batch os = batch ?t \<and> axis1 os = length [[0, 1], [2::int]] \<and> features os = features ?t"
    by (rule sh [rule_format]) (simp add: call(2))
  moreover
  have "batch oa = batch ?t \<and> axis1 oa = length [[0, 1], [2::int]] \<and> features oa = features ?t"
    by (rule sh [rule_format]) (simp add: call(3))
  ultimately have "(batch om, axis1 om, features om) = (1, 2, 1)"
    "(batch os, axis1 os, features os) = (1, 2, 1)"
    "(batch oa, axis1 oa, features oa) = (1, 2, 1)"
    unfolding shp by simp_all
  then show ?thesis
    using init call
    by (intro exI [of _ m] exI [of _ s] exI [of _ a] exI [of _ om] exI [of _ os] exI [of _ oa]) simp
qed

text \<open>
  Claim C10. For a rectangular index table with all indices in range and a weight table
  whose shape broadcasts against it (in particular one of the same shape),
  \<open>sumPartitionPooling\<close> is linear in the feature tensor: on tensors \<open>x\<close> and \<open>y\<close> of
  the same shape and a scalar \<open>c\<close> it returns tensors of one shape with
  \<open>sumPool (x + y) = sumPool x + sumPool y\<close> and \<open>sumPool (c * x) = c * sumPool x\<close>
  at every position, in exact arithmetic.
\<close>

theorem sum_pooling_linear:
  assumes "rectangular p" and "concat p \<noteq> []"
    and "\<forall>j\<in>set (concat p). 0 \<le> j \<and> j < int (axis1 x)"
    and "broadcast_dim (length p) (rows2 w) = Inr P"
    and "broadcast_dim (length (hd p)) (cols2 w) = Inr L"
    and "batch y = batch x" and "axis1 y = axis1 x" and "features y = features x"
  shows "\<exists>rx ry rs rc.
             sumPartitionPooling x w p = Inr rx
           \<and> sumPartitionPooling y w p = Inr ry
           \<and> sumPartitionPooling (tensor_add x y) w p = Inr rs
           \<and> sumPartitionPooling (tensor_scale c x) w p = Inr rc
           \<and> (batch rx, axis1 rx, features rx) = (batch x, P, features x)
           \<and> (batch ry, axis1 ry, features ry) = (batch x, P, features x)
           \<and> (batch rs, axis1 rs, features rs) = (batch x, P, features x)
           \<and> (batch rc, axis1 rc, features rc) = (batch x, P, features x)
           \<and> (\<forall>b<batch x. \<forall>i<P. \<forall>f<features x.
                 at3 rs b i f = at3 rx b i f + at3 ry b i f
               \<and> at3 rc b i f = c * at3 rx b i f)"
proof -
  have iy: "\<forall>j\<in>set (concat p). 0 \<le> j \<and> j < int (axis1 y)"
    using assms(3,7) by simp
  have isum: "\<forall>j\<in>set (concat p). 0 \<le> j \<and> j < int (axis1 (tensor_add x y))"
    using assms(3) by (simp add: tensor_add_def)
  have ic: "\<forall>j\<in>set (concat p). 0 \<le> j \<and> j < int (axis1 (tensor_scale c x))"
    using assms(3) by (simp add: tensor_scale_def)
  have add: "sum_list (map (\<lambda>k. (u k + v k) * g k) ks)
               = sum_list (map (\<lambda>k. u k * g k) ks) + sum_list (map (\<lambda>k. v k * g k) ks)"
    for u v g :: "nat \<Rightarrow> real" and ks
    by (induction ks) (simp_all add: algebra_simps)
  have scale: "sum_list (map (\<lambda>k. c * u k * g k) ks) = c * sum_list (map (\<lambda>k. u k * g k) ks)"
    for u g :: "nat \<Rightarrow> real" and ks
    by (induction ks) (simp_all add: algebra_simps)
  show ?thesis
    unfolding sumPartitionPooling_broadcast [OF assms(1,2,3) assms(4,5)]
      sumPartitionPooling_broadcast [OF assms(1,2) iy assms(4,5)]
      sumPartitionPooling_broadcast [OF assms(1,2) isum assms(4,5)]
      sumPartitionPooling_broadcast [OF assms(1,2) ic assms(4,5)]
    using assms(6,8) by (simp add: tensor_add_def tensor_scale_def add scale)
qed

theorem sum_pooling_linear_witness:
  "\<exists>rx ry rs rc.
      sumPartitionPooling (tensor3_of_lists [[[1], [3], [5]]])
         (tf_constant2 [[1, 1], [1 / 2, 1 / 2]]) [[0, 1], [2, 2]] = Inr rx
    \<and> sumPartitionPooling (tensor3_of_lists [[[2], [0], [7]]])
         (tf_constant2 [[1, 1], [1 / 2, 1 / 2]]) [[0, 1], [2, 2]] = Inr ry
    \<and> sumPartitionPooling (tensor_add (tensor3_of_lists [[[1], [3], [5]]])
                                       (tensor3_of_lists [[[2], [0], [7]]]))
         (tf_constant2 [[1, 1], [1 / 2, 1 / 2]]) [[0, 1], [2, 2]] = Inr rs
    \<and> sumPartitionPooling (tensor_scale 3 (tensor3_of_lists [[[1], [3], [5]]]))
         (tf_constant2 [[1, 1], [1 / 2, 1 / 2]]) [[0, 1], [2, 2]] = Inr rc
    \<and> at3 rs 0 1 0 = at3 rx 0 1 0 + at3 ry 0 1 0
    \<and> at3 rc 0 1 0 = 3 * at3 rx 0 1 0"
proof -
  let ?x = "tensor3_of_lists [[[1], [3], [5]]]"
  let ?y = "tensor3_of_lists [[[2], [0], [7]]]"
  let ?w = "tf_constant2 [[1, 1], [1 / 2, 1 / 2]]"
  let ?p = "[[0, 1], [2, 2::int]]"
  have h: "rectangular ?p" "concat ?p \<noteq> []"
    "\<forall>j\<in>set (concat ?p). 0 \<le> j \<and> j < int (axis1 ?x)"
    "broadcast_dim (length ?p) (rows2 ?w) = Inr 2"
    "broadcast_dim (length (hd ?p)) (cols2 ?w) = Inr 2"
    "batch ?y = batch ?x" "axis1 ?y = axis1 ?x" "features ?y = features ?x"
    by (simp_all add: rectangular_def tensor3_of_lists_def tf_constant2_def broadcast_dim_def)
  from sum_pooling_linear [OF h, of 3] obtain rx ry rs rc where 1:
    "sumPartitionPooling ?x ?w ?p = Inr rx" "sumPartitionPooling ?y ?w ?p = Inr ry"
    "sumPartitionPooling (tensor_add ?x ?y) ?w ?p = Inr rs"
    "sumPartitionPooling (tensor_scale 3 ?x) ?w ?p = Inr rc"
    and 2: "\<forall>b<batch ?x. \<forall>i<2. \<forall>f<features ?x.
                 at3 rs b i f = at3 rx b i f + at3 ry b i f
               \<and> at3 rc b i f = 3 * at3 rx b i f"
    by blast
  have "at3 rs 0 1 0 = at3 rx 0 1 0 + at3 ry 0 1 0 \<and> at3 rc 0 1 0 = 3 * at3 rx 0 1 0"
    using 2 by (simp add: tensor3_of_lists_def)
  then show ?thesis using 1 by blast
qed

section \<open>The scenarios of the specification\<close>

text \<open>
  The two worked examples of the specification, evaluated on the model: partitions
  \<open>[[0, 1], [2]]\<close> on the node values 1, 3, 5, and the group \<open>[0, 0, 1]\<close> with a repeated
  index on the node values 2, 4, 1. A spec of empty groups only is normalized to empty rows.
\<close>

lemma adj_example:
  "adjustPartitionLength [[0, 1], [2]] = Inr ([[0, 1], [2, 2]], [[1, 1], [1 / 2, 1 / 2]])"
  by (simp add: adjustPartitionLength_def py_max_def np_pad_edge_def assign_tail_def)

lemma scenario_max:
  "map_sum id lists_of_tensor3
     (case MaxPartitionPooling_init [[0, 1], [2]] of
        Inl err \<Rightarrow> Inl err
      | Inr self \<Rightarrow> MaxPartitionPooling_call self (tensor3_of_lists [[[1], [3], [5]]]))
   = Inr [[[3], [5]]]"
  by (simp add: MaxPartitionPooling_init_def PartitionPooling_init_def adj_example
      MaxPartitionPooling_call_def maxPartitionPooling_def tf_gather_def rectangular_def
      tensor3_of_lists_def reduce_max_axis2_def lists_of_tensor3_def max_list_def upt_rec)

lemma scenario_sum:
  "map_sum id lists_of_tensor3
     (case SumPartitionPooling_init [[0, 1], [2]] of
        Inl err \<Rightarrow> Inl err
      | Inr self \<Rightarrow> SumPartitionPooling_call self (tensor3_of_lists [[[1], [3], [5]]]))
   = Inr [[[4], [5]]]"
  by (simp add: SumPartitionPooling_init_def PartitionPooling_init_def adj_example
      SumPartitionPooling_call_def sumPartitionPooling_def tf_gather_def rectangular_def
      tf_multiply_def broadcast_dim_def stretch_def tf_constant2_def PartitionPooling.defs
      tensor3_of_lists_def reduce_sum_axis2_def lists_of_tensor3_def upt_rec)

lemma scenario_average:
  "map_sum id lists_of_tensor3
     (case AveragePartitionPooling_init [[0, 1], [2]] of
        Inl err \<Rightarrow> Inl err
      | Inr self \<Rightarrow> AveragePartitionPooling_call self (tensor3_of_lists [[[1], [3], [5]]]))
   = Inr [[[2], [5]]]"
  by (simp add: AveragePartitionPooling_init_def PartitionPooling_init_def adj_example
      AveragePartitionPooling_call_def averagePartitionPooling_def tf_gather_def rectangular_def
      tf_multiply_def tf_divide_def broadcast_dim_def stretch_def tf_constant2_def
      tf_constant1_def np_sum_last_def PartitionPooling.defs
      tensor3_of_lists_def reduce_sum_axis2_def lists_of_tensor3_def upt_rec)

lemma scenario_duplicate_index:
  "map_sum id lists_of_tensor3
     (case AveragePartitionPooling_init [[0, 0, 1]] of
        Inl err \<Rightarrow> Inl err
      | Inr self \<Rightarrow> AveragePartitionPooling_call self (tensor3_of_lists [[[2], [4], [1]]]))
   = Inr [[[8 / 3]]]"
  by (simp add: AveragePartitionPooling_init_def PartitionPooling_init_def
      adjustPartitionLength_def py_max_def np_pad_edge_def assign_tail_def
      AveragePartitionPooling_call_def averagePartitionPooling_def tf_gather_def rectangular_def
      tf_multiply_def tf_divide_def broadcast_dim_def stretch_def tf_constant2_def
      tf_constant1_def np_sum_last_def PartitionPooling.defs
      tensor3_of_lists_def reduce_sum_axis2_def lists_of_tensor3_def upt_rec)

lemma all_empty_groups: "adjustPartitionLength [[], []] = Inr ([[], []], [[], []])"
  by (simp add: adjustPartitionLength_def py_max_def np_pad_edge_def assign_tail_def)

section \<open>Failures\<close>

lemma adjustPartitionLength_fails_iff:
  "(\<exists>err. adjustPartitionLength part = Inl err)
     \<longleftrightarrow> part = [] \<or> ((\<exists>e\<in>set part. e = []) \<and> (\<exists>e\<in>set part. e \<noteq> []))"
proof (cases "part = []")
  case True
  then show ?thesis by (simp add: adjustPartitionLength_empty)
next
  case False
  show ?thesis
    using False by (auto simp: adjustPartitionLength_eq [OF False] maxLen_pos_iff [OF False])
qed

lemma adjustPartitionLength_error: "adjustPartitionLength part = Inl err \<Longrightarrow> err = ValueError"
  by (cases "part = []") (auto simp: adjustPartitionLength_empty adjustPartitionLength_eq split: if_splits)



text \<open>
  Claim C7 says that normalization fails exactly when the spec is empty, has an empty
  group, or has a non-integer or negative index. The source validates nothing: its only
  exceptions are those of \<^verbatim>\<open>max\<close> on an empty list and of \<^verbatim>\<open>np.pad\<close> on an empty
  group that has to grow. A negative index is padded and stored like any other.
\<close>

theorem negative_index_accepted:
  "adjustPartitionLength [[- 1]] = Inr ([[- 1]], [[1]])"
  by (simp add: adjustPartitionLength_def py_max_def np_pad_edge_def assign_tail_def)

text \<open>
  Claim C7, amended. For a spec whose indices fit the int64 cells of the table,
  \<open>adjustPartitionLength\<close> fails exactly when the spec is empty, or has an empty group
  beside a non-empty one; the sign of the indices plays no part (and a non-integer index
  is excluded by the type of the spec). The exception is Python's ValueError. When it
  is raised nothing is returned, and none of the layer constructors yields a layer.
\<close>

theorem normalization_fails_iff:
  assumes "\<forall>j\<in>set (concat part). - (2 ^ 63) \<le> j \<and> j < 2 ^ 63"
  shows "((\<exists>err. adjustPartitionLength part = Inl err)
      \<longleftrightarrow> part = [] \<or> ((\<exists>e\<in>set part. e = []) \<and> (\<exists>e\<in>set part. e \<noteq> [])))
   \<and> (\<forall>err. adjustPartitionLength part = Inl err \<longrightarrow>
          err = ValueError
        \<and> PartitionPooling_init part = Inl ValueError
        \<and> MaxPartitionPooling_init part = Inl ValueError
        \<and> SumPartitionPooling_init part = Inl ValueError
        \<and> AveragePartitionPooling_init part = Inl ValueError)"
proof -
  have "PartitionPooling_init part = Inl ValueError
        \<and> MaxPartitionPooling_init part = Inl ValueError
        \<and> SumPartitionPooling_init part = Inl ValueError
        \<and> AveragePartitionPooling_init part = Inl ValueError"
    if "adjustPartitionLength part = Inl ValueError"
    using that
    by (simp add: PartitionPooling_init_def MaxPartitionPooling_init_def
        SumPartitionPooling_init_def AveragePartitionPooling_init_def)
  then show ?thesis
    using adjustPartitionLength_fails_iff [of part] adjustPartitionLength_error [of part]
    by blast
qed

theorem normalization_fails_iff_witness:
  "adjustPartitionLength [[0, 1], []] = Inl ValueError
   \<and> SumPartitionPooling_init [[0, 1], []] = Inl ValueError"
proof -
  have h: "\<forall>j\<in>set (concat [[0, 1], []]). - (2 ^ 63) \<le> j \<and> j < (2 ^ 63 :: int)"
    by simp
  have "\<exists>err. adjustPartitionLength [[0, 1], []] = Inl err"
    using normalization_fails_iff [OF h] by simp
  then show ?thesis
    using normalization_fails_iff [OF h] by blast
qed




end
